theory Spec2Isabelle
  imports Complex_Main
begin

section \<open>Data model of the playback engine\<close>

text \<open>
  The engine of \<^verbatim>\<open>src/modules/AudioEngine.js\<close> keeps its clock readings
  (\<^verbatim>\<open>Date.now()\<close>, in milliseconds), delays and speeds as JavaScript numbers.
  They are modelled as exact rationals: rounding of the double arithmetic is outside
  the model.
\<close>

type_synonym time = rat

datatype audioKey = Muyu | Bowl

text \<open>The \<^verbatim>\<open>description\<close> strings of the sequence events.\<close>

datatype label = StartBowl | MuyuNo nat

text \<open>
  One entry of the playback sequence. A property the JavaScript object does not carry
  (\<^verbatim>\<open>characterIndex\<close>, \<^verbatim>\<open>isStartBowl\<close>, \<^verbatim>\<open>isMuyu\<close>) reads as
  \<^verbatim>\<open>undefined\<close>: \<open>None\<close> and \<open>False\<close> here.
\<close>

record seqEvent =
  etype :: audioKey
  delay :: rat
  characterIndex :: "nat option"
  description :: label
  noWait :: bool
  isStartBowl :: bool
  isMuyu :: bool

text \<open>The per-character data built by \<^verbatim>\<open>parseTextToLines\<close>.\<close>

record charData =
  codepoint :: nat
  cindex :: nat
  lineIndex :: nat
  positionInLine :: nat
  isPunctuation :: bool
  isSpace :: bool

section \<open>createPlaybackSequence\<close>

definition bowlEvent :: seqEvent where
  "bowlEvent = \<lparr> etype = Bowl, delay = 0, characterIndex = None, description = StartBowl,
                 noWait = False, isStartBowl = True, isMuyu = False \<rparr>"

definition muyuEvent :: "nat \<Rightarrow> rat \<Rightarrow> nat \<Rightarrow> seqEvent" where
  "muyuEvent muyuIndex baseInterval i =
     \<lparr> etype = Muyu, delay = of_nat muyuIndex * baseInterval, characterIndex = Some i,
       description = MuyuNo (muyuIndex + 1), noWait = True, isStartBowl = False,
       isMuyu = True \<rparr>"

text \<open>
  \<^verbatim>\<open>this.getCharacterData ? this.getCharacterData(i) : null\<close>: the accessor is an
  optional field of the engine.
\<close>

definition charDataAt :: "(nat \<Rightarrow> charData option) option \<Rightarrow> nat \<Rightarrow> charData option" where
  "charDataAt getCharacterData i =
     (case getCharacterData of None \<Rightarrow> None | Some g \<Rightarrow> g i)"

text \<open>\<^verbatim>\<open>!charData || (!charData.isPunctuation && !charData.isSpace)\<close>\<close>

definition getsMuyu :: "charData option \<Rightarrow> bool" where
  "getsMuyu charData =
     (case charData of None \<Rightarrow> True | Some d \<Rightarrow> \<not> isPunctuation d \<and> \<not> isSpace d)"

text \<open>The \<^verbatim>\<open>for (let i = 0; i < textLength; i++)\<close> loop, with its two counters.\<close>

function muyuEventsFrom ::
  "(nat \<Rightarrow> charData option) option \<Rightarrow> rat \<Rightarrow> nat \<Rightarrow> nat \<Rightarrow> nat \<Rightarrow> seqEvent list \<Rightarrow> seqEvent list"
where
  "muyuEventsFrom getCharacterData baseInterval textLength i muyuIndex sequence =
     (if i < textLength then
        (if getsMuyu (charDataAt getCharacterData i)
         then muyuEventsFrom getCharacterData baseInterval textLength (i + 1) (muyuIndex + 1)
                (sequence @ [muyuEvent muyuIndex baseInterval i])
         else muyuEventsFrom getCharacterData baseInterval textLength (i + 1) muyuIndex sequence)
      else sequence)"
  by pat_completeness auto
termination
  by (relation "measure (\<lambda>(g, b, textLength, i, m, s). textLength - i)") auto

definition createPlaybackSequence ::
  "rat \<Rightarrow> (nat \<Rightarrow> charData option) option \<Rightarrow> nat \<Rightarrow> seqEvent list"
where
  "createPlaybackSequence playbackSpeed getCharacterData textLength =
     (let baseInterval = 1000 / playbackSpeed
      in muyuEventsFrom getCharacterData baseInterval textLength 0 0 [bowlEvent])"

text \<open>
  The accessor installed by \<^verbatim>\<open>startPlayback\<close>:
  \<^verbatim>\<open>textManager.characters && textManager.characters[index] ? ... : null\<close>.
\<close>

definition characterAccessor :: "charData list \<Rightarrow> nat \<Rightarrow> charData option" where
  "characterAccessor characters i = (if i < length characters then Some (characters ! i) else None)"

text \<open>A verbal unit: a character that is neither punctuation nor a space.\<close>

definition isVerbal :: "charData \<Rightarrow> bool" where
  "isVerbal d = (\<not> isPunctuation d \<and> \<not> isSpace d)"

definition verbalIndices :: "charData list \<Rightarrow> nat list" where
  "verbalIndices characters = filter (\<lambda>i. isVerbal (characters ! i)) [0..<length characters]"

section \<open>LyricsTextManager: the highlight state\<close>

text \<open>
  The text manager keeps its marks as CSS classes on the character spans of the page.
  \<open>rendered\<close> is the set of \<^verbatim>\<open>data-char-index\<close> values that have a span
  (what \<^verbatim>\<open>querySelector\<close> finds), \<open>highlighted\<close> and \<open>completed\<close> are the
  spans carrying the class of that name, and \<open>scrolls\<close> lists the calls of
  \<^verbatim>\<open>scrollToCurrentLine\<close> with the line scrolled to.
\<close>

record lyrics =
  characters :: "charData list"
  currentCharIndex :: nat
  currentLineIndex :: nat
  isHighlightEnabled :: bool
  rendered :: "nat set"
  highlighted :: "nat set"
  completed :: "nat set"
  scrolls :: "nat list"

definition clearHighlight :: "lyrics \<Rightarrow> lyrics" where
  "clearHighlight tm = tm\<lparr>highlighted := {}\<rparr>"

definition scrollToCurrentLine :: "lyrics \<Rightarrow> lyrics" where
  "scrollToCurrentLine tm = tm\<lparr>scrolls := scrolls tm @ [currentLineIndex tm]\<rparr>"

text \<open>One pass of the loop that marks the characters before the current one.\<close>

definition markCompleted :: "nat \<Rightarrow> lyrics \<Rightarrow> lyrics" where
  "markCompleted i tm =
     (if i \<in> rendered tm
      then tm\<lparr>completed := insert i (completed tm), highlighted := highlighted tm - {i}\<rparr>
      else tm)"

definition highlightCharacter :: "int \<Rightarrow> lyrics \<Rightarrow> lyrics" where
  "highlightCharacter charIndex tm =
     (if \<not> isHighlightEnabled tm \<or> charIndex < 0 \<or> charIndex \<ge> int (length (characters tm))
      then tm
      else
        let tm1 = clearHighlight tm;
            n = nat charIndex;
            newLineIndex = lineIndex (characters tm1 ! n);
            tm2 = tm1\<lparr>currentCharIndex := n\<rparr>;
            tm3 = (if newLineIndex \<noteq> currentLineIndex tm2
                   then scrollToCurrentLine (tm2\<lparr>currentLineIndex := newLineIndex\<rparr>)
                   else tm2);
            tm4 = (if n \<in> rendered tm3 then tm3\<lparr>highlighted := insert n (highlighted tm3)\<rparr>
                   else tm3)
        in fold markCompleted [0..<n] tm4)"

definition resetPosition :: "lyrics \<Rightarrow> lyrics" where
  "resetPosition tm =
     (clearHighlight (tm\<lparr>currentCharIndex := 0, currentLineIndex := 0\<rparr>))\<lparr>completed := {}\<rparr>"

section \<open>AudioEngine: state, notifications and suspended work\<close>

text \<open>
  The errors that travel through the engine: a missing audio object, the rejection of
  \<^verbatim>\<open>startPlayback\<close> for an absent or empty text, a rejected \<^verbatim>\<open>audio.play()\<close>
  promise (named \<^verbatim>\<open>AbortError\<close>, or anything else), and the \<^verbatim>\<open>TypeError\<close> of
  reading \<^verbatim>\<open>this.currentSequence\<close> when it is \<^verbatim>\<open>null\<close>.
\<close>

datatype error = AudioNotFound audioKey | EmptyText | AbortError | PlayFailure | NullSequence

text \<open>Console messages kept in the trace: the warnings and errors, and the phase message.\<close>

datatype logMsg =
    SpeedOutOfRange
  | AlreadyPlaying
  | BowlFinished
  | CueAborted audioKey
  | CuePlayFailed audioKey
  | MuyuFailed nat

text \<open>What the engine does to the outside: the audio elements, the callbacks, the console.\<close>

datatype out =
    AudioPlay audioKey
  | AudioStopAll
  | PlayStateChange bool bool
  | HighlightCall nat
  | SequenceProgress nat seqEvent nat
  | SequenceComplete
  | OnError error
  | Log logMsg

text \<open>
  An \<^verbatim>\<open>async\<close> function that is suspended at an \<^verbatim>\<open>await\<close> or in a timer:
  \<^item> \<open>AwaitBowl\<close>: \<^verbatim>\<open>executeSequenceInPhases\<close> awaiting the blocking start cue;
  \<^item> \<open>MuyuTimer muyuEvents i startTime delay due\<close>: \<^verbatim>\<open>executeMuyuSequence\<close> in iteration
    \<open>i\<close>, inside \<^verbatim>\<open>waitWithPauseSupport(delay)\<close> entered at \<open>startTime\<close>, its next
    \<^verbatim>\<open>setTimeout\<close> due at \<open>due\<close>;
  \<^item> \<open>AwaitEvent ev\<close> and \<open>SeqTimer ev startTime delay due\<close>: the same two places of
    \<^verbatim>\<open>executeSequence\<close>, which has read \<open>ev\<close> as its current event;
  \<^item> \<open>RestartTimer due\<close>: the loop restart scheduled by \<^verbatim>\<open>completePlayback\<close>.
\<close>

datatype task =
    Finished
  | AwaitBowl
  | MuyuTimer "seqEvent list" nat time rat time
  | AwaitEvent seqEvent
  | SeqTimer seqEvent time rat time
  | RestartTimer time

record engine =
  audioFiles :: "audioKey set"
  isPlaying :: bool
  isPaused :: bool
  isLooping :: bool
  playbackSpeed :: rat
  currentSequence :: "seqEvent list option"
  sequenceIndex :: nat
  sequenceStartTime :: time
  muyuStartTime :: "time option"
  textManager :: "lyrics option"
  tasks :: "task list"
  trace :: "out list"

text \<open>The constructor; \<open>loaded\<close> is what \<^verbatim>\<open>preloadAudioFiles\<close> managed to load.\<close>

definition newEngine :: "audioKey set \<Rightarrow> engine" where
  "newEngine loaded =
     \<lparr> audioFiles = loaded, isPlaying = False, isPaused = False, isLooping = False,
       playbackSpeed = 1, currentSequence = None, sequenceIndex = 0, sequenceStartTime = 0,
       muyuStartTime = None, textManager = None, tasks = [], trace = [] \<rparr>"

definition emit :: "out \<Rightarrow> engine \<Rightarrow> engine" where
  "emit x e = e\<lparr>trace := trace e @ [x]\<rparr>"

definition setTask :: "nat \<Rightarrow> task \<Rightarrow> engine \<Rightarrow> engine" where
  "setTask k t e = e\<lparr>tasks := (tasks e)[k := t]\<rparr>"

definition handleError :: "error \<Rightarrow> engine \<Rightarrow> engine" where
  "handleError err e = emit (OnError err) e"

definition notifyPlayStateChange :: "bool \<Rightarrow> engine \<Rightarrow> engine" where
  "notifyPlayStateChange playing e = emit (PlayStateChange playing (isPaused e)) e"

definition notifySequenceComplete :: "engine \<Rightarrow> engine" where
  "notifySequenceComplete e = emit SequenceComplete e"

text \<open>
  \<^verbatim>\<open>notifySequenceProgress\<close>: the highlight of the text manager, then the progress
  callback, which reads \<^verbatim>\<open>this.currentSequence.length\<close>.
\<close>

definition notifySequenceProgress :: "nat \<Rightarrow> seqEvent \<Rightarrow> engine \<Rightarrow> error option \<times> engine" where
  "notifySequenceProgress index event e =
     (let e1 = (case characterIndex event of
                  None \<Rightarrow> e
                | Some ci \<Rightarrow>
                    (case textManager e of
                       None \<Rightarrow> e
                     | Some tm \<Rightarrow> emit (HighlightCall ci)
                                   (e\<lparr>textManager := Some (highlightCharacter (int ci) tm)\<rparr>)))
      in case currentSequence e1 of
           None \<Rightarrow> (Some NullSequence, e1)
         | Some sq \<Rightarrow> (None, emit (SequenceProgress index event (length sq)) e1))"

text \<open>
  \<^verbatim>\<open>playAudio\<close> up to the call of \<^verbatim>\<open>audio.play()\<close>: skipped when the engine is
  not playing, an error when the audio object is missing, started otherwise.
\<close>

datatype played = Skipped | Missing | Started

definition playAudio :: "audioKey \<Rightarrow> engine \<Rightarrow> played \<times> engine" where
  "playAudio audioKey e =
     (if \<not> isPlaying e then (Skipped, e)
      else if audioKey \<notin> audioFiles e then (Missing, handleError (AudioNotFound audioKey) e)
      else (Started, emit (AudioPlay audioKey) e))"

definition stopPlayback :: "engine \<Rightarrow> engine" where
  "stopPlayback e =
     (let e1 = e\<lparr>isPlaying := False, isPaused := False, currentSequence := None,
                 sequenceIndex := 0\<rparr>;
          e2 = emit AudioStopAll e1;
          e3 = (case textManager e2 of
                  None \<Rightarrow> e2
                | Some tm \<Rightarrow> e2\<lparr>textManager := Some (resetPosition tm)\<rparr>)
      in notifyPlayStateChange False e3)"

definition completePlayback :: "time \<Rightarrow> engine \<Rightarrow> engine" where
  "completePlayback now e =
     (case (if isLooping e then textManager e else None) of
        Some tm \<Rightarrow>
          e\<lparr>textManager := Some (resetPosition tm),
            tasks := tasks e @ [RestartTimer (now + 1000)]\<rparr>
      | None \<Rightarrow>
          notifySequenceComplete
            (notifyPlayStateChange False (e\<lparr>isPlaying := False, isPaused := False\<rparr>)))"

section \<open>The periodic phase: executeMuyuSequence and waitWithPauseSupport\<close>

text \<open>
  \<^verbatim>\<open>Math.max(0, event.delay - elapsedTime)\<close> against an anchor. An anchor that was
  never set makes the difference \<^verbatim>\<open>NaN\<close>, for which the test \<^verbatim>\<open>waitTime > 0\<close>
  is false: no wait.
\<close>

definition waitTimeFor :: "time \<Rightarrow> time option \<Rightarrow> rat \<Rightarrow> rat" where
  "waitTimeFor now anchor d =
     (case anchor of None \<Rightarrow> 0 | Some a \<Rightarrow> max 0 (d - (now - a)))"

text \<open>
  The \<^verbatim>\<open>try\<close> block of one iteration: the fire-and-forget cue, then the progress
  notification. An error thrown by either is caught and logged, and the loop goes on
  (neither error is an \<^verbatim>\<open>AbortError\<close>, so the early exit of the handler is not
  taken).
\<close>

definition muyuDispatch :: "nat \<Rightarrow> seqEvent \<Rightarrow> engine \<Rightarrow> engine" where
  "muyuDispatch i event e =
     (case playAudio (etype event) e of
        (Missing, e1) \<Rightarrow> emit (Log (MuyuFailed i)) e1
      | (_, e1) \<Rightarrow>
          (case notifySequenceProgress i event e1 of
             (None, e2) \<Rightarrow> e2
           | (Some err, e2) \<Rightarrow> emit (Log (MuyuFailed i)) e2))"

text \<open>
  The loop of \<^verbatim>\<open>executeMuyuSequence\<close> from iteration \<open>i\<close>, run by task \<open>k\<close> at clock
  reading \<open>now\<close>, up to its next suspension. Entering \<^verbatim>\<open>waitWithPauseSupport\<close> runs
  \<^verbatim>\<open>checkAndWait\<close> once at elapsed time 0, which sets the first timer.
\<close>

function muyuLoop :: "nat \<Rightarrow> time \<Rightarrow> seqEvent list \<Rightarrow> nat \<Rightarrow> engine \<Rightarrow> engine" where
  "muyuLoop k now muyuEvents i e =
     (if i < length muyuEvents then
        (if \<not> isPlaying e \<or> isPaused e then setTask k Finished e
         else
           let event = muyuEvents ! i;
               waitTime = waitTimeFor now (muyuStartTime e) (delay event)
           in if waitTime > 0
              then setTask k (MuyuTimer muyuEvents i now waitTime (now + min waitTime 100)) e
              else if \<not> isPlaying e \<or> isPaused e then setTask k Finished e
              else muyuLoop k now muyuEvents (i + 1) (muyuDispatch i event e))
      else completePlayback now (setTask k Finished e))"
  by pat_completeness auto
termination
  by (relation "measure (\<lambda>(k, now, muyuEvents, i, e). length muyuEvents - i)") auto

text \<open>The rest of an iteration once \<^verbatim>\<open>waitWithPauseSupport\<close> has resolved.\<close>

definition muyuAfterWait :: "nat \<Rightarrow> time \<Rightarrow> seqEvent list \<Rightarrow> nat \<Rightarrow> engine \<Rightarrow> engine" where
  "muyuAfterWait k now muyuEvents i e =
     (if \<not> isPlaying e \<or> isPaused e then setTask k Finished e
      else muyuLoop k now muyuEvents (i + 1) (muyuDispatch i (muyuEvents ! i) e))"

text \<open>\<^verbatim>\<open>checkAndWait\<close>, called by its timer at clock reading \<open>now\<close>.\<close>

definition muyuCheckAndWait ::
  "nat \<Rightarrow> time \<Rightarrow> seqEvent list \<Rightarrow> nat \<Rightarrow> time \<Rightarrow> rat \<Rightarrow> engine \<Rightarrow> engine"
where
  "muyuCheckAndWait k now muyuEvents i startTime d e =
     (if \<not> isPlaying e then muyuAfterWait k now muyuEvents i e
      else if isPaused e then setTask k (MuyuTimer muyuEvents i startTime d (now + 100)) e
      else
        let elapsed = now - startTime;
            remainingDelay = d - elapsed
        in if remainingDelay \<le> 0 then muyuAfterWait k now muyuEvents i e
           else setTask k (MuyuTimer muyuEvents i startTime d (now + min remainingDelay 100)) e)"

section \<open>Starting: startPlayback, startPlaybackSequence, executeSequenceInPhases\<close>

text \<open>The second phase of \<^verbatim>\<open>executeSequenceInPhases\<close>, after the start cue.\<close>

definition phaseTwo :: "nat \<Rightarrow> time \<Rightarrow> engine \<Rightarrow> error option \<times> engine" where
  "phaseTwo k now e =
     (case currentSequence e of
        None \<Rightarrow> (Some NullSequence, e)
      | Some sq \<Rightarrow>
          (let muyuEvents = filter isMuyu sq
           in if length muyuEvents > 0
              then (None, muyuLoop k now muyuEvents 0 (e\<lparr>muyuStartTime := Some now\<rparr>))
              else (None, setTask k Finished e)))"

definition executeSequenceInPhases :: "nat \<Rightarrow> time \<Rightarrow> engine \<Rightarrow> error option \<times> engine" where
  "executeSequenceInPhases k now e =
     (case currentSequence e of
        None \<Rightarrow> (Some NullSequence, e)
      | Some sq \<Rightarrow>
          (case find isStartBowl sq of
             None \<Rightarrow> phaseTwo k now e
           | Some bowl \<Rightarrow>
               (case playAudio (etype bowl) e of
                  (Started, e1) \<Rightarrow> (None, setTask k AwaitBowl e1)
                | (Missing, e1) \<Rightarrow> (Some (AudioNotFound (etype bowl)), e1)
                | (Skipped, e1) \<Rightarrow> phaseTwo k now (emit (Log BowlFinished) e1))))"

text \<open>
  The handler shared by \<^verbatim>\<open>startPlaybackSequence\<close>, \<^verbatim>\<open>resumePlayback\<close> and the
  restart timer: an error of the work they started is reported and playback is stopped.
\<close>

definition settle :: "nat \<Rightarrow> error option \<times> engine \<Rightarrow> engine" where
  "settle k r =
     (case r of
        (None, e) \<Rightarrow> e
      | (Some err, e) \<Rightarrow> stopPlayback (handleError err (setTask k Finished e)))"

definition startPlaybackSequence :: "seqEvent list \<Rightarrow> time \<Rightarrow> engine \<Rightarrow> engine" where
  "startPlaybackSequence sequence now e =
     (if isPlaying e then emit (Log AlreadyPlaying) e
      else
        let k = length (tasks e);
            e1 = e\<lparr>currentSequence := Some sequence, sequenceIndex := 0, isPlaying := True,
                   isPaused := False, sequenceStartTime := now, tasks := tasks e @ [Finished]\<rparr>;
            e2 = notifyPlayStateChange True e1
        in settle k (executeSequenceInPhases k now e2))"

text \<open>
  \<^verbatim>\<open>this.getCharacterData\<close> is installed together with \<^verbatim>\<open>this.textManager\<close> and
  reads the characters of that text manager.
\<close>

definition getCharacterData :: "engine \<Rightarrow> (nat \<Rightarrow> charData option) option" where
  "getCharacterData e = map_option (\<lambda>tm. characterAccessor (characters tm)) (textManager e)"

definition startPlayback :: "lyrics option \<Rightarrow> time \<Rightarrow> engine \<Rightarrow> error option \<times> engine" where
  "startPlayback tmArg now e =
     (case tmArg of
        None \<Rightarrow> (Some EmptyText, handleError EmptyText e)
      | Some tm \<Rightarrow>
          if length (characters tm) = 0 then (Some EmptyText, handleError EmptyText e)
          else
            let e1 = e\<lparr>textManager := Some tm\<rparr>;
                sequence = createPlaybackSequence (playbackSpeed e1) (getCharacterData e1)
                             (length (characters tm))
            in (None, startPlaybackSequence sequence now e1))"

text \<open>The start cue's promise settles: the audio ended, or \<^verbatim>\<open>play()\<close> was rejected.\<close>

definition bowlEnded :: "nat \<Rightarrow> time \<Rightarrow> engine \<Rightarrow> engine" where
  "bowlEnded k now e = settle k (phaseTwo k now (emit (Log BowlFinished) e))"

definition bowlRejected :: "nat \<Rightarrow> error \<Rightarrow> time \<Rightarrow> engine \<Rightarrow> engine" where
  "bowlRejected k err now e =
     (if err = AbortError \<and> \<not> isPlaying e
      then settle k (phaseTwo k now (emit (Log BowlFinished) e))
      else settle k (Some err, handleError err e))"

section \<open>The older walker: executeSequence\<close>

text \<open>
  \<^verbatim>\<open>executeSequence\<close> walks \<^verbatim>\<open>this.currentSequence\<close> from
  \<^verbatim>\<open>this.sequenceIndex\<close>, with delays measured from \<^verbatim>\<open>this.sequenceStartTime\<close>. It
  is what \<^verbatim>\<open>resumePlayback\<close> calls. One pass either goes on to the next entry, or
  ends (suspended, returned, or with an error thrown).
\<close>

datatype pass = Next engine | Stop "error option" engine

definition seqAfterPlay :: "seqEvent \<Rightarrow> engine \<Rightarrow> pass" where
  "seqAfterPlay currentEvent e =
     (case notifySequenceProgress (sequenceIndex e) currentEvent e of
        (Some err, e1) \<Rightarrow> Stop (Some err) e1
      | (None, e1) \<Rightarrow> Next (e1\<lparr>sequenceIndex := sequenceIndex e1 + 1\<rparr>))"

definition seqAfterWait :: "nat \<Rightarrow> seqEvent \<Rightarrow> engine \<Rightarrow> pass" where
  "seqAfterWait k currentEvent e =
     (if \<not> isPlaying e \<or> isPaused e then Stop None (setTask k Finished e)
      else
        (case playAudio (etype currentEvent) e of
           (Missing, e1) \<Rightarrow> Stop (Some (AudioNotFound (etype currentEvent))) e1
         | (Started, e1) \<Rightarrow>
             if noWait currentEvent then seqAfterPlay currentEvent e1
             else Stop None (setTask k (AwaitEvent currentEvent) e1)
         | (Skipped, e1) \<Rightarrow> seqAfterPlay currentEvent e1))"

function executeSequence :: "nat \<Rightarrow> time \<Rightarrow> engine \<Rightarrow> error option \<times> engine" where
  "executeSequence k now e =
     (case currentSequence e of
        None \<Rightarrow> (None, completePlayback now (setTask k Finished e))
      | Some sq \<Rightarrow>
          if sequenceIndex e \<ge> length sq
          then (None, completePlayback now (setTask k Finished e))
          else
            let currentEvent = sq ! sequenceIndex e;
                waitTime = max 0 (delay currentEvent - (now - sequenceStartTime e))
            in if waitTime > 0
               then (None, setTask k (SeqTimer currentEvent now waitTime
                                        (now + min waitTime 100)) e)
               else (case seqAfterWait k currentEvent e of
                       Next e' \<Rightarrow> executeSequence k now e'
                     | Stop r e' \<Rightarrow> (r, e')))"
  by pat_completeness auto
termination
  by (relation "measure (\<lambda>(k, now, e).
         case currentSequence e of None \<Rightarrow> 0 | Some sq \<Rightarrow> length sq - sequenceIndex e)")
     (auto simp: seqAfterWait_def seqAfterPlay_def playAudio_def notifySequenceProgress_def
        emit_def handleError_def Let_def split: if_splits option.splits)

definition seqContinue :: "nat \<Rightarrow> time \<Rightarrow> pass \<Rightarrow> error option \<times> engine" where
  "seqContinue k now p =
     (case p of Next e' \<Rightarrow> executeSequence k now e' | Stop r e' \<Rightarrow> (r, e'))"

definition seqCheckAndWait ::
  "nat \<Rightarrow> time \<Rightarrow> seqEvent \<Rightarrow> time \<Rightarrow> rat \<Rightarrow> engine \<Rightarrow> error option \<times> engine"
where
  "seqCheckAndWait k now currentEvent startTime d e =
     (if \<not> isPlaying e then seqContinue k now (seqAfterWait k currentEvent e)
      else if isPaused e then (None, setTask k (SeqTimer currentEvent startTime d (now + 100)) e)
      else
        let elapsed = now - startTime;
            remainingDelay = d - elapsed
        in if remainingDelay \<le> 0 then seqContinue k now (seqAfterWait k currentEvent e)
           else (None, setTask k (SeqTimer currentEvent startTime d
                                    (now + min remainingDelay 100)) e))"

definition eventEnded :: "nat \<Rightarrow> seqEvent \<Rightarrow> time \<Rightarrow> engine \<Rightarrow> engine" where
  "eventEnded k currentEvent now e = settle k (seqContinue k now (seqAfterPlay currentEvent e))"

definition eventRejected :: "nat \<Rightarrow> seqEvent \<Rightarrow> error \<Rightarrow> time \<Rightarrow> engine \<Rightarrow> engine" where
  "eventRejected k currentEvent err now e =
     (if err = AbortError \<and> \<not> isPlaying e
      then settle k (seqContinue k now (seqAfterPlay currentEvent e))
      else settle k (Some err, handleError err e))"

section \<open>Pause, resume, speed, looping\<close>

definition pausePlayback :: "engine \<Rightarrow> engine" where
  "pausePlayback e =
     (if isPlaying e \<and> \<not> isPaused e
      then notifyPlayStateChange False (e\<lparr>isPaused := True\<rparr>)
      else e)"

definition resumePlayback :: "time \<Rightarrow> engine \<Rightarrow> engine" where
  "resumePlayback now e =
     (if isPlaying e \<and> isPaused e
      then
        let e1 = notifyPlayStateChange True (e\<lparr>isPaused := False\<rparr>);
            k = length (tasks e1)
        in settle k (executeSequence k now (e1\<lparr>tasks := tasks e1 @ [Finished]\<rparr>))
      else e)"

text \<open>
  \<^verbatim>\<open>!this.muyuStartTime\<close> holds for an anchor that was never set and for the number 0.
\<close>

definition adjustPlaybackSpeed :: "time \<Rightarrow> rat \<Rightarrow> rat \<Rightarrow> engine \<Rightarrow> engine" where
  "adjustPlaybackSpeed now oldSpeed newSpeed e =
     (if \<not> isPlaying e then e
      else
        (case muyuStartTime e of
           None \<Rightarrow> e
         | Some anchor \<Rightarrow>
             if anchor = 0 then e
             else
               let currentTime = now;
                   elapsedTime = currentTime - anchor;
                   speedRatio = oldSpeed / newSpeed;
                   adjustedElapsedTime = elapsedTime * speedRatio
               in e\<lparr>muyuStartTime := Some (currentTime - adjustedElapsedTime)\<rparr>))"

definition setLooping :: "bool \<Rightarrow> engine \<Rightarrow> engine" where
  "setLooping looping e = e\<lparr>isLooping := looping\<rparr>"

definition setPlaybackSpeed :: "rat \<Rightarrow> time \<Rightarrow> engine \<Rightarrow> engine" where
  "setPlaybackSpeed speed now e =
     (if speed < 1 / 10 \<or> speed > 10 then emit (Log SpeedOutOfRange) e
      else
        let oldSpeed = playbackSpeed e;
            e1 = e\<lparr>playbackSpeed := speed\<rparr>
        in if isPlaying e1 then adjustPlaybackSpeed now oldSpeed speed e1 else e1)"

text \<open>The restart timer of \<^verbatim>\<open>completePlayback\<close>, with its own error handler.\<close>

definition restartFired :: "nat \<Rightarrow> time \<Rightarrow> engine \<Rightarrow> engine" where
  "restartFired k now e =
     settle k (startPlayback (textManager e) now (setTask k Finished e))"

section \<open>The event loop\<close>

text \<open>
  JavaScript runs one callback at a time. An event is one callback of the host or of the
  browser, and \<open>step\<close> is everything the engine does in it, up to the point where all of
  its work is suspended again. The clock is read as \<open>now\<close> throughout one callback.
  \<^item> the host calls a method of the engine;
  \<^item> \<open>TimerFired k now\<close>: the timer of task \<open>k\<close> fires;
  \<^item> \<open>AudioEnded k now\<close>: the \<^verbatim>\<open>ended\<close> event reaches the listener of task \<open>k\<close>;
  \<^item> \<open>PlayRejected k err now\<close>: the \<^verbatim>\<open>play()\<close> promise task \<open>k\<close> awaits is rejected;
  \<^item> \<open>CueRejected key err\<close>: the \<^verbatim>\<open>play()\<close> promise of a fire-and-forget cue is
    rejected; its handler only writes to the console.
\<close>

datatype event =
    StartPlayback "lyrics option" time
  | PausePlayback
  | ResumePlayback time
  | StopPlayback
  | SetPlaybackSpeed rat time
  | SetLooping bool
  | TimerFired nat time
  | AudioEnded nat time
  | PlayRejected nat error time
  | CueRejected audioKey error

definition taskAt :: "engine \<Rightarrow> nat \<Rightarrow> task" where
  "taskAt e k = (if k < length (tasks e) then tasks e ! k else Finished)"

definition timerFired :: "nat \<Rightarrow> time \<Rightarrow> engine \<Rightarrow> engine" where
  "timerFired k now e =
     (case taskAt e k of
        MuyuTimer muyuEvents i startTime d due \<Rightarrow> muyuCheckAndWait k now muyuEvents i startTime d e
      | SeqTimer currentEvent startTime d due \<Rightarrow>
          settle k (seqCheckAndWait k now currentEvent startTime d e)
      | RestartTimer due \<Rightarrow> restartFired k now e
      | _ \<Rightarrow> e)"

definition audioEnded :: "nat \<Rightarrow> time \<Rightarrow> engine \<Rightarrow> engine" where
  "audioEnded k now e =
     (case taskAt e k of
        AwaitBowl \<Rightarrow> bowlEnded k now e
      | AwaitEvent currentEvent \<Rightarrow> eventEnded k currentEvent now e
      | _ \<Rightarrow> e)"

definition playRejected :: "nat \<Rightarrow> error \<Rightarrow> time \<Rightarrow> engine \<Rightarrow> engine" where
  "playRejected k err now e =
     (case taskAt e k of
        AwaitBowl \<Rightarrow> bowlRejected k err now e
      | AwaitEvent currentEvent \<Rightarrow> eventRejected k currentEvent err now e
      | _ \<Rightarrow> e)"

definition cueRejected :: "audioKey \<Rightarrow> error \<Rightarrow> engine \<Rightarrow> engine" where
  "cueRejected audioKey err e =
     (if err = AbortError \<and> \<not> isPlaying e then emit (Log (CueAborted audioKey)) e
      else emit (Log (CuePlayFailed audioKey)) e)"

fun step :: "event \<Rightarrow> engine \<Rightarrow> engine" where
  "step (StartPlayback tm now) e = snd (startPlayback tm now e)"
| "step PausePlayback e = pausePlayback e"
| "step (ResumePlayback now) e = resumePlayback now e"
| "step StopPlayback e = stopPlayback e"
| "step (SetPlaybackSpeed speed now) e = setPlaybackSpeed speed now e"
| "step (SetLooping looping) e = setLooping looping e"
| "step (TimerFired k now) e = timerFired k now e"
| "step (AudioEnded k now) e = audioEnded k now e"
| "step (PlayRejected k err now) e = playRejected k err now e"
| "step (CueRejected audioKey err) e = cueRejected audioKey err e"

text \<open>A schedule of events, run from left to right.\<close>

definition run :: "event list \<Rightarrow> engine \<Rightarrow> engine" where
  "run evs e = fold step evs e"

section \<open>Reading a trace\<close>

text \<open>
  The part of a trace that concerns the cues: the sounds played, the highlight and
  progress notifications, and the message that the start cue is over.
\<close>

fun isCueOut :: "out \<Rightarrow> bool" where
  "isCueOut (AudioPlay audioKey) = True"
| "isCueOut (HighlightCall ci) = True"
| "isCueOut (SequenceProgress i ev n) = True"
| "isCueOut (Log BowlFinished) = True"
| "isCueOut x = False"

definition cueTrace :: "out list \<Rightarrow> out list" where
  "cueTrace tr = filter isCueOut tr"

text \<open>
  What one periodic cue leaves in the trace when nothing fails: its sound, the highlight
  of its character if a text manager is attached, and its progress notification.
\<close>

definition cueOutputs :: "bool \<Rightarrow> nat \<Rightarrow> nat \<Rightarrow> seqEvent \<Rightarrow> out list" where
  "cueOutputs hasTextManager n i ev =
     AudioPlay (etype ev) #
     (case characterIndex ev of
        None \<Rightarrow> []
      | Some ci \<Rightarrow> if hasTextManager then [HighlightCall ci] else []) @
     [SequenceProgress i ev n]"

text \<open>The cues \<open>i, \<dots>, j - 1\<close> of a list, each once, in order.\<close>

definition cuesBetween :: "bool \<Rightarrow> nat \<Rightarrow> seqEvent list \<Rightarrow> nat \<Rightarrow> nat \<Rightarrow> out list" where
  "cuesBetween hasTextManager n muyuEvents i j =
     concat (map (\<lambda>m. cueOutputs hasTextManager n m (muyuEvents ! m)) [i..<j])"

text \<open>The engine after the iterations \<open>i, \<dots>, j - 1\<close> of the periodic loop.\<close>

definition dispatchCues :: "seqEvent list \<Rightarrow> nat \<Rightarrow> nat \<Rightarrow> engine \<Rightarrow> engine" where
  "dispatchCues muyuEvents i j e = fold (\<lambda>m. muyuDispatch m (muyuEvents ! m)) [i..<j] e"

text \<open>
  The events of one run whose work is task \<open>k\<close>, short of a resume or a new start: the
  settling of its start cue, its timer, speed and looping changes, a pause, a stop, and
  the late failure of a fire-and-forget cue.
\<close>

fun runEvent :: "nat \<Rightarrow> event \<Rightarrow> bool" where
  "runEvent k (TimerFired k' now) = (k' = k)"
| "runEvent k (AudioEnded k' now) = (k' = k)"
| "runEvent k (PlayRejected k' err now) = (k' = k)"
| "runEvent k (SetPlaybackSpeed speed now) = True"
| "runEvent k (SetLooping looping) = True"
| "runEvent k PausePlayback = True"
| "runEvent k StopPlayback = True"
| "runEvent k (CueRejected audioKey err) = True"
| "runEvent k ev = False"

text \<open>
  The periodic loop of task \<open>k\<close> stands at cue \<open>j\<close>: it waits for cue \<open>j\<close> in its timer,
  or it has returned.
\<close>

definition loopAt :: "nat \<Rightarrow> seqEvent list \<Rightarrow> nat \<Rightarrow> engine \<Rightarrow> bool" where
  "loopAt k muyuEvents j e =
     (case taskAt e k of
        MuyuTimer evs j' startTime d due \<Rightarrow> evs = muyuEvents \<and> j' = j \<and> j < length muyuEvents
      | Finished \<Rightarrow> j \<le> length muyuEvents
      | _ \<Rightarrow> False)"

text \<open>
  The state of a run in its periodic phase, \<open>j\<close> cues after cue \<open>i\<close>: the loop stands at
  \<open>j\<close>, and since the trace read \<open>base\<close> the cues \<open>i, \<dots>, j - 1\<close> were put out, each
  once and in order.
\<close>

definition periodicInv ::
  "nat \<Rightarrow> seqEvent list \<Rightarrow> seqEvent list \<Rightarrow> bool \<Rightarrow> out list \<Rightarrow> nat \<Rightarrow> nat \<Rightarrow> engine \<Rightarrow> bool"
where
  "periodicInv k muyuEvents sq h base i j e =
     (i \<le> j \<and> loopAt k muyuEvents j e
      \<and> cueTrace (trace e) = base @ cuesBetween h (length sq) muyuEvents i j
      \<and> (textManager e \<noteq> None) = h
      \<and> (isPlaying e \<longrightarrow> currentSequence e = Some sq)
      \<and> (\<forall>ev \<in> set muyuEvents. etype ev \<in> audioFiles e))"


section \<open>Timers that fire on time, and how many polls a run needs\<close>











text \<open>
  What an operation leaves alone: the anchor of the periodic phase and the first \<open>n\<close>
  suspended tasks.
\<close>

definition keeps :: "nat \<Rightarrow> engine \<Rightarrow> engine \<Rightarrow> bool" where
  "keeps n e e' =
     (muyuStartTime e' = muyuStartTime e \<and> n \<le> length (tasks e')
      \<and> take n (tasks e') = take n (tasks e))"

section \<open>Sample data\<close>

text \<open>
  Three characters, the middle one punctuation, at speed 2: the bowl, then two muyu cues
  at 0 ms and 500 ms for the characters 0 and 2.
\<close>

definition sampleChars :: "charData list" where
  "sampleChars =
     [\<lparr>codepoint = 20315, cindex = 0, lineIndex = 0, positionInLine = 0,
        isPunctuation = False, isSpace = False\<rparr>,
      \<lparr>codepoint = 65292, cindex = 1, lineIndex = 0, positionInLine = 1,
        isPunctuation = True, isSpace = False\<rparr>,
      \<lparr>codepoint = 35828, cindex = 2, lineIndex = 1, positionInLine = 0,
        isPunctuation = False, isSpace = False\<rparr>]"

text \<open>The text manager of that text, drawn on the page, nothing marked yet.\<close>

definition sampleLyrics :: lyrics where
  "sampleLyrics =
     \<lparr> characters = sampleChars, currentCharIndex = 0, currentLineIndex = 0,
       isHighlightEnabled = True, rendered = {0, 1, 2}, highlighted = {}, completed = {},
       scrolls = [] \<rparr>"

text \<open>
  The same text manager between \<^verbatim>\<open>loadText\<close>, which fills \<^verbatim>\<open>characters\<close>, and the
  \<^verbatim>\<open>renderLyrics\<close> that its timer calls 100 ms later: no span is drawn yet.
\<close>

definition unrenderedLyrics :: lyrics where
  "unrenderedLyrics = sampleLyrics\<lparr>rendered := {}\<rparr>"

text \<open>An engine with both sounds loaded, and the same engine in its periodic phase.\<close>

definition freshEngine :: engine where
  "freshEngine = newEngine {Muyu, Bowl}"

definition periodicEngine :: engine where
  "periodicEngine = freshEngine\<lparr>isPlaying := True, muyuStartTime := Some 1000\<rparr>"

text \<open>
  The sample text started at time 0 on the fresh engine, its start cue over at 5000 ms: the
  first periodic cue is out and the loop waits for the second.
\<close>

definition periodicRun :: engine where
  "periodicRun = run [StartPlayback (Some sampleLyrics) 0, AudioEnded 0 5000] freshEngine"




text \<open>The sample text manager with no text loaded.\<close>

definition emptyLyrics :: lyrics where
  "emptyLyrics = sampleLyrics\<lparr>characters := [], rendered := {}\<rparr>"

text \<open>
  A whole run of the sample text with looping switched on: the start cue, both periodic cues,
  and the restart timer one second after the last cue.
\<close>

definition loopingRun :: engine where
  "loopingRun = run [SetLooping True, StartPlayback (Some sampleLyrics) 0, AudioEnded 0 5000,
                     TimerFired 0 6000, TimerFired 1 7000] freshEngine"

text \<open>
  The run of \<open>periodicRun\<close> paused, polled once by its timer at 5100 ms, and resumed at
  5400 ms; then the sound started by the resume ends, and the timer of the periodic loop
  fires.
\<close>

definition pausedRun :: engine where
  "pausedRun = run [PausePlayback, TimerFired 0 5100, ResumePlayback 5400] periodicRun"

definition resumedRun :: engine where
  "resumedRun = run [AudioEnded 1 9000, TimerFired 0 9001] pausedRun"

section \<open>Evaluating the engine on concrete schedules\<close>

declare muyuLoop.simps [simp del]

declare executeSequence.simps [simp del]

section \<open>Properties of the sequence builder\<close>

lemma muyuEventsFrom_unfold:
  "i \<le> length cs \<Longrightarrow>
   muyuEventsFrom (Some (characterAccessor cs)) b (length cs) i m sq =
     sq @ map (\<lambda>(k, j). muyuEvent (m + k) b j)
            (enumerate 0 (filter (\<lambda>j. isVerbal (cs ! j)) [i..<length cs]))"
proof (induction "Some (characterAccessor cs)" b "length cs" i m sq rule: muyuEventsFrom.induct)
  case (1 b i m sq)
  show ?case
  proof (cases "i < length cs")
    case False
    with "1.prems" show ?thesis by simp
  next
    case lt: True
    then have up: "[i..<length cs] = i # [i + 1..<length cs]"
      by (simp add: upt_conv_Cons)
    show ?thesis
    proof (cases "isVerbal (cs ! i)")
      case True
      then have g: "getsMuyu (charDataAt (Some (characterAccessor cs)) i)"
        using lt by (simp add: getsMuyu_def charDataAt_def characterAccessor_def isVerbal_def)
      have "muyuEventsFrom (Some (characterAccessor cs)) b (length cs) i m sq =
            muyuEventsFrom (Some (characterAccessor cs)) b (length cs) (i + 1) (m + 1)
              (sq @ [muyuEvent m b i])"
        using lt g by simp
      also have "\<dots> = (sq @ [muyuEvent m b i]) @ map (\<lambda>(k, j). muyuEvent (m + 1 + k) b j)
            (enumerate 0 (filter (\<lambda>j. isVerbal (cs ! j)) [i + 1..<length cs]))"
        using "1.hyps"(1)[OF lt g] lt by simp
      also have "\<dots> = sq @ map (\<lambda>(k, j). muyuEvent (m + k) b j)
            (enumerate 0 (filter (\<lambda>j. isVerbal (cs ! j)) [i..<length cs]))"
        using True
        by (simp add: up enumerate_Suc_eq map_prod_def split_def comp_def del: upt_Suc)
      finally show ?thesis .
    next
      case False
      then have g: "\<not> getsMuyu (charDataAt (Some (characterAccessor cs)) i)"
        using lt by (simp add: getsMuyu_def charDataAt_def characterAccessor_def isVerbal_def)
      have "muyuEventsFrom (Some (characterAccessor cs)) b (length cs) i m sq =
            muyuEventsFrom (Some (characterAccessor cs)) b (length cs) (i + 1) m sq"
        using lt g by simp
      also have "\<dots> = sq @ map (\<lambda>(k, j). muyuEvent (m + k) b j)
            (enumerate 0 (filter (\<lambda>j. isVerbal (cs ! j)) [i + 1..<length cs]))"
        using "1.hyps"(2)[OF lt g] lt by simp
      also have "\<dots> = sq @ map (\<lambda>(k, j). muyuEvent (m + k) b j)
            (enumerate 0 (filter (\<lambda>j. isVerbal (cs ! j)) [i..<length cs]))"
        using False by (simp add: up del: upt_Suc)
      finally show ?thesis .
    qed
  qed
qed


lemma enumerate_map_nth:
  "map (\<lambda>(k, j). f k j) (enumerate 0 xs) = map (\<lambda>i. f i (xs ! i)) [0..<length xs]"
  by (rule nth_equalityI) (simp_all add: nth_enumerate_eq)

text \<open>
  Claim C2. For every character stream and every speed \<open>s > 0\<close>, the sequence built by
  \<^verbatim>\<open>createPlaybackSequence\<close> is the start (bowl) cue, at delay 0 and awaited, followed
  by one periodic (muyu) cue per verbal character, in the order of the characters; the
  cue of verbal rank \<open>i\<close> has delay \<open>i * (1000 / s)\<close> and carries the index of its
  character, so characters that are not verbal produce no cue and shift no delay.
\<close>

theorem createPlaybackSequence_cues:
  assumes "0 < s"
  shows "createPlaybackSequence s (Some (characterAccessor cs)) (length cs) =
           bowlEvent # map (\<lambda>i. muyuEvent i (1000 / s) (verbalIndices cs ! i))
                           [0..<length (verbalIndices cs)]
         \<and> etype bowlEvent = Bowl \<and> delay bowlEvent = 0 \<and> \<not> noWait bowlEvent
         \<and> (\<forall>i < length (verbalIndices cs).
               let ev = createPlaybackSequence s (Some (characterAccessor cs)) (length cs) ! (i + 1)
               in etype ev = Muyu \<and> noWait ev \<and> delay ev = of_nat i * (1000 / s)
                  \<and> characterIndex ev = Some (verbalIndices cs ! i))
         \<and> length (createPlaybackSequence s (Some (characterAccessor cs)) (length cs)) =
             1 + length (filter isVerbal cs)"
proof -
  let ?sq = "createPlaybackSequence s (Some (characterAccessor cs)) (length cs)"
  let ?vs = "verbalIndices cs"
  have eq: "?sq = bowlEvent # map (\<lambda>i. muyuEvent i (1000 / s) (?vs ! i)) [0..<length ?vs]"
    using muyuEventsFrom_unfold[of 0 cs "1000 / s" 0 "[bowlEvent]"]
    by (simp add: createPlaybackSequence_def verbalIndices_def
        enumerate_map_nth[of "\<lambda>k j. muyuEvent k (1000 / s) j"])
  have len: "length ?vs = length (filter isVerbal cs)"
  proof -
    have "map ((!) cs) ?vs = filter isVerbal (map ((!) cs) [0..<length cs])"
      by (simp add: verbalIndices_def filter_map comp_def)
    also have "map ((!) cs) [0..<length cs] = cs"
      by (rule map_nth)
    finally show ?thesis
      by (metis length_map)
  qed
  have nth: "\<forall>i < length ?vs. ?sq ! (i + 1) = muyuEvent i (1000 / s) (?vs ! i)"
    by (simp add: eq)
  show ?thesis
    using eq len nth by (simp add: bowlEvent_def muyuEvent_def Let_def)
qed

theorem createPlaybackSequence_cues_witness:
  "createPlaybackSequence 2 (Some (characterAccessor sampleChars)) (length sampleChars) =
     [bowlEvent, muyuEvent 0 500 0, muyuEvent 1 500 2]"
proof -
  have v: "verbalIndices sampleChars = [0, 2]"
    by (simp add: verbalIndices_def sampleChars_def isVerbal_def upt_rec[of 0] upt_rec[of 1]
        upt_rec[of 2] upt_rec[of 3])
  have "(0::rat) < 2" by simp
  from createPlaybackSequence_cues[OF this, of sampleChars] show ?thesis
    by (simp add: v upt_rec[of 0] upt_rec[of 1] upt_rec[of 2])
qed


section \<open>Speed changes\<close>

text \<open>
  Claim C1. A call of \<^verbatim>\<open>adjustPlaybackSpeed(oldSpeed, newSpeed)\<close> while the engine is
  playing and the periodic phase has begun (the anchor \<^verbatim>\<open>muyuStartTime\<close> is set)
  moves the anchor to \<open>now - (now - anchor) * (oldSpeed / newSpeed)\<close> and changes nothing
  else, for all positive speeds.
\<close>

theorem adjustPlaybackSpeed_rebase:
  assumes "isPlaying e" and "muyuStartTime e = Some anchor" and "anchor \<noteq> 0"
    and "0 < oldSpeed" and "0 < newSpeed"
  shows "adjustPlaybackSpeed now oldSpeed newSpeed e =
           e\<lparr>muyuStartTime := Some (now - (now - anchor) * (oldSpeed / newSpeed))\<rparr>"
  using assms by (simp add: adjustPlaybackSpeed_def Let_def)

theorem adjustPlaybackSpeed_rebase_witness:
  "adjustPlaybackSpeed 3000 1 2 periodicEngine = periodicEngine\<lparr>muyuStartTime := Some 2000\<rparr>"
  using adjustPlaybackSpeed_rebase[of periodicEngine 1000 1 2 3000]
  by (simp add: periodicEngine_def freshEngine_def newEngine_def)

text \<open>
  Claim C10. For a speed below 0.1 or above 10, \<^verbatim>\<open>setPlaybackSpeed\<close> returns without
  an error and leaves the engine as it was: the speed, the anchor and every other field
  keep their values, nothing is played and no callback is called; the only effect is the
  warning on the console.
\<close>

theorem setPlaybackSpeed_out_of_range:
  assumes "speed < 1 / 10 \<or> speed > 10"
  shows "setPlaybackSpeed speed now e = e\<lparr>trace := trace e @ [Log SpeedOutOfRange]\<rparr>
         \<and> playbackSpeed (setPlaybackSpeed speed now e) = playbackSpeed e
         \<and> muyuStartTime (setPlaybackSpeed speed now e) = muyuStartTime e
         \<and> tasks (setPlaybackSpeed speed now e) = tasks e"
  using assms by (auto simp: setPlaybackSpeed_def emit_def)

theorem setPlaybackSpeed_out_of_range_witness:
  "setPlaybackSpeed 11 3000 periodicEngine =
     periodicEngine\<lparr>trace := trace periodicEngine @ [Log SpeedOutOfRange]\<rparr>
   \<and> setPlaybackSpeed (1 / 20) 3000 periodicEngine =
     periodicEngine\<lparr>trace := trace periodicEngine @ [Log SpeedOutOfRange]\<rparr>"
  using setPlaybackSpeed_out_of_range[of 11 3000 periodicEngine]
    setPlaybackSpeed_out_of_range[of "1 / 20" 3000 periodicEngine]
  by simp

section \<open>The highlight of the text manager\<close>

lemma markCompleted_fields:
  "completed (markCompleted i tm) = completed tm \<union> ({i} \<inter> rendered tm)"
  "highlighted (markCompleted i tm) = highlighted tm - ({i} \<inter> rendered tm)"
  "rendered (markCompleted i tm) = rendered tm"
  "characters (markCompleted i tm) = characters tm"
  "currentCharIndex (markCompleted i tm) = currentCharIndex tm"
  "currentLineIndex (markCompleted i tm) = currentLineIndex tm"
  "isHighlightEnabled (markCompleted i tm) = isHighlightEnabled tm"
  "scrolls (markCompleted i tm) = scrolls tm"
  by (simp_all add: markCompleted_def)

lemma fold_markCompleted_fields:
  "completed (fold markCompleted [0..<n] tm) = completed tm \<union> ({..<n} \<inter> rendered tm)
   \<and> highlighted (fold markCompleted [0..<n] tm) = highlighted tm - ({..<n} \<inter> rendered tm)
   \<and> rendered (fold markCompleted [0..<n] tm) = rendered tm
   \<and> characters (fold markCompleted [0..<n] tm) = characters tm
   \<and> currentCharIndex (fold markCompleted [0..<n] tm) = currentCharIndex tm
   \<and> currentLineIndex (fold markCompleted [0..<n] tm) = currentLineIndex tm
   \<and> isHighlightEnabled (fold markCompleted [0..<n] tm) = isHighlightEnabled tm
   \<and> scrolls (fold markCompleted [0..<n] tm) = scrolls tm"
proof (induction n)
  case 0
  show ?case by simp
next
  case (Suc n)
  have s: "{..<Suc n} = insert n {..<n}" by (rule lessThan_Suc)
  have u: "A \<union> {..<n} \<inter> R \<union> {n} \<inter> R = A \<union> insert n {..<n} \<inter> R" for A R :: "nat set"
    by blast
  have d: "A - {..<n} \<inter> R - {n} \<inter> R = A - insert n {..<n} \<inter> R" for A R :: "nat set"
    by blast
  show ?case
    using Suc by (simp add: markCompleted_fields s u d del: Int_insert_left Int_insert_right)
qed


lemma fold_markCompleted_simps:
  "completed (fold markCompleted [0..<n] tm) = completed tm \<union> ({..<n} \<inter> rendered tm)"
  "highlighted (fold markCompleted [0..<n] tm) = highlighted tm - ({..<n} \<inter> rendered tm)"
  "rendered (fold markCompleted [0..<n] tm) = rendered tm"
  "characters (fold markCompleted [0..<n] tm) = characters tm"
  "currentCharIndex (fold markCompleted [0..<n] tm) = currentCharIndex tm"
  "currentLineIndex (fold markCompleted [0..<n] tm) = currentLineIndex tm"
  "isHighlightEnabled (fold markCompleted [0..<n] tm) = isHighlightEnabled tm"
  "scrolls (fold markCompleted [0..<n] tm) = scrolls tm"
  using fold_markCompleted_fields[of n tm] by simp_all

lemma highlightCharacter_fields:
  assumes "isHighlightEnabled tm" and "n < length (characters tm)"
  shows "completed (highlightCharacter (int n) tm) = completed tm \<union> ({..<n} \<inter> rendered tm)"
    and "highlighted (highlightCharacter (int n) tm) = {n} \<inter> rendered tm"
    and "rendered (highlightCharacter (int n) tm) = rendered tm"
    and "characters (highlightCharacter (int n) tm) = characters tm"
    and "currentCharIndex (highlightCharacter (int n) tm) = n"
    and "currentLineIndex (highlightCharacter (int n) tm) = lineIndex (characters tm ! n)"
    and "isHighlightEnabled (highlightCharacter (int n) tm)"
    and "scrolls (highlightCharacter (int n) tm) =
           scrolls tm @ (if lineIndex (characters tm ! n) \<noteq> currentLineIndex tm
                         then [lineIndex (characters tm ! n)] else [])"
proof -
  have d: "({n} - {..<n} \<inter> R) = {n}" for R :: "nat set" by auto
  show "completed (highlightCharacter (int n) tm) = completed tm \<union> ({..<n} \<inter> rendered tm)"
    using assms
    by (simp add: highlightCharacter_def Let_def fold_markCompleted_simps clearHighlight_def
        scrollToCurrentLine_def)
  show "highlighted (highlightCharacter (int n) tm) = {n} \<inter> rendered tm"
    using assms
    by (simp add: highlightCharacter_def Let_def fold_markCompleted_simps clearHighlight_def
        scrollToCurrentLine_def d)
  show "rendered (highlightCharacter (int n) tm) = rendered tm"
    using assms
    by (simp add: highlightCharacter_def Let_def fold_markCompleted_simps clearHighlight_def
        scrollToCurrentLine_def)
  show "characters (highlightCharacter (int n) tm) = characters tm"
    using assms
    by (simp add: highlightCharacter_def Let_def fold_markCompleted_simps clearHighlight_def
        scrollToCurrentLine_def)
  show "currentCharIndex (highlightCharacter (int n) tm) = n"
    using assms
    by (simp add: highlightCharacter_def Let_def fold_markCompleted_simps clearHighlight_def
        scrollToCurrentLine_def)
  show "currentLineIndex (highlightCharacter (int n) tm) = lineIndex (characters tm ! n)"
    using assms
    by (simp add: highlightCharacter_def Let_def fold_markCompleted_simps clearHighlight_def
        scrollToCurrentLine_def)
  show "isHighlightEnabled (highlightCharacter (int n) tm)"
    using assms
    by (simp add: highlightCharacter_def Let_def fold_markCompleted_simps clearHighlight_def
        scrollToCurrentLine_def)
  show "scrolls (highlightCharacter (int n) tm) =
           scrolls tm @ (if lineIndex (characters tm ! n) \<noteq> currentLineIndex tm
                         then [lineIndex (characters tm ! n)] else [])"
    using assms
    by (simp add: highlightCharacter_def Let_def fold_markCompleted_simps clearHighlight_def
        scrollToCurrentLine_def)
qed

lemma highlightCharacter_keeps_completed:
  "completed tm \<subseteq> completed (highlightCharacter j tm)"
  by (simp add: highlightCharacter_def Let_def fold_markCompleted_simps clearHighlight_def
      scrollToCurrentLine_def)

text \<open>
  Claim C9, as stated, fails on the sample text manager before its spans are drawn: index 2
  is valid and highlighting is enabled, yet \<^verbatim>\<open>highlightCharacter(2)\<close> highlights
  nothing and marks nothing as completed; only the position is recorded.
\<close>

theorem highlightCharacter_unrendered_counterexample:
  "isHighlightEnabled unrenderedLyrics
   \<and> 2 < length (characters unrenderedLyrics)
   \<and> highlighted (highlightCharacter 2 unrenderedLyrics) = {}
   \<and> completed (highlightCharacter 2 unrenderedLyrics) = {}
   \<and> currentCharIndex (highlightCharacter 2 unrenderedLyrics) = 2"
  by (simp add: unrenderedLyrics_def sampleLyrics_def sampleChars_def highlightCharacter_def
      clearHighlight_def scrollToCurrentLine_def fold_markCompleted_simps Let_def)

text \<open>
  Claim C9, amended. For a valid character index \<open>n\<close>, with highlighting enabled,
  \<^verbatim>\<open>highlightCharacter(n)\<close> records \<open>n\<close> as the current character and works on the
  spans that are drawn on the page: the span of \<open>n\<close>, if it is drawn, is the only one
  highlighted, every drawn span with an index below \<open>n\<close> is marked completed, and the
  completed marks that were there are kept; a further call, with the same or a lower index,
  changes no completed mark, and no call ever removes one; it scrolls to the line of
  character \<open>n\<close> exactly when that line differs from the line that was current.
\<close>

theorem highlightCharacter_marks_drawn:
  assumes "isHighlightEnabled tm" and "n < length (characters tm)"
  shows "currentCharIndex (highlightCharacter (int n) tm) = n
       \<and> highlighted (highlightCharacter (int n) tm) = {n} \<inter> rendered tm
       \<and> completed (highlightCharacter (int n) tm) = completed tm \<union> ({..<n} \<inter> rendered tm)
       \<and> (\<forall>m \<le> n. completed (highlightCharacter (int m) (highlightCharacter (int n) tm)) =
                     completed (highlightCharacter (int n) tm))
       \<and> (\<forall>j. completed (highlightCharacter (int n) tm)
                 \<subseteq> completed (highlightCharacter j (highlightCharacter (int n) tm)))
       \<and> currentLineIndex (highlightCharacter (int n) tm) = lineIndex (characters tm ! n)
       \<and> scrolls (highlightCharacter (int n) tm) =
            scrolls tm @ (if lineIndex (characters tm ! n) \<noteq> currentLineIndex tm
                          then [lineIndex (characters tm ! n)] else [])"
proof -
  let ?tm = "highlightCharacter (int n) tm"
  note f = highlightCharacter_fields[OF assms(1,2)]
  have again: "completed (highlightCharacter (int m) ?tm) = completed ?tm" if "m \<le> n" for m
  proof -
    have m: "m < length (characters ?tm)" using that assms(2) f(4) by simp
    have "{..<m} \<subseteq> {..<n}" using that by auto
    then show ?thesis
      using highlightCharacter_fields(1)[OF f(7) m] f(1,3) by auto
  qed
  have keep: "\<forall>j. completed ?tm \<subseteq> completed (highlightCharacter j ?tm)"
    by (simp add: highlightCharacter_keeps_completed)
  have "currentCharIndex ?tm = n" "highlighted ?tm = {n} \<inter> rendered tm"
    "completed ?tm = completed tm \<union> ({..<n} \<inter> rendered tm)"
    "currentLineIndex ?tm = lineIndex (characters tm ! n)"
    using f by simp_all
  then show ?thesis
    using again keep f(8) by blast
qed

theorem highlightCharacter_marks_drawn_witness:
  "highlighted (highlightCharacter 2 sampleLyrics) = {2}
   \<and> completed (highlightCharacter 2 sampleLyrics) = {0, 1}
   \<and> scrolls (highlightCharacter 2 sampleLyrics) = [1]
   \<and> highlighted (highlightCharacter 2 (sampleLyrics\<lparr>rendered := {1, 2}\<rparr>)) = {2}
   \<and> completed (highlightCharacter 2 (sampleLyrics\<lparr>rendered := {1, 2}\<rparr>)) = {1}"
proof -
  have a: "isHighlightEnabled sampleLyrics" "2 < length (characters sampleLyrics)"
    by (auto simp: sampleLyrics_def sampleChars_def)
  have b: "isHighlightEnabled (sampleLyrics\<lparr>rendered := {1, 2}\<rparr>)"
    "2 < length (characters (sampleLyrics\<lparr>rendered := {1, 2}\<rparr>))"
    by (auto simp: sampleLyrics_def sampleChars_def)
  from highlightCharacter_marks_drawn[OF a] highlightCharacter_marks_drawn[OF b]
  show ?thesis
    by (auto simp: sampleLyrics_def sampleChars_def)
qed

section \<open>The periodic loop, one block of cues at a time\<close>

lemma cueTrace_append [simp]: "cueTrace (a @ b) = cueTrace a @ cueTrace b"
  by (simp add: cueTrace_def)

lemma muyuDispatch_frame:
  "isPlaying (muyuDispatch i ev e) = isPlaying e"
  "isPaused (muyuDispatch i ev e) = isPaused e"
  "isLooping (muyuDispatch i ev e) = isLooping e"
  "audioFiles (muyuDispatch i ev e) = audioFiles e"
  "currentSequence (muyuDispatch i ev e) = currentSequence e"
  "muyuStartTime (muyuDispatch i ev e) = muyuStartTime e"
  "tasks (muyuDispatch i ev e) = tasks e"
  "playbackSpeed (muyuDispatch i ev e) = playbackSpeed e"
  "sequenceIndex (muyuDispatch i ev e) = sequenceIndex e"
  "sequenceStartTime (muyuDispatch i ev e) = sequenceStartTime e"
  "(textManager (muyuDispatch i ev e) = None) = (textManager e = None)"
  by (auto simp: muyuDispatch_def playAudio_def notifySequenceProgress_def emit_def
      handleError_def Let_def split: option.splits)

lemma muyuDispatch_trace:
  assumes "isPlaying e" and "etype ev \<in> audioFiles e" and "currentSequence e = Some sq"
  shows "trace (muyuDispatch i ev e) =
           trace e @ cueOutputs (textManager e \<noteq> None) (length sq) i ev"
  using assms
  by (auto simp: muyuDispatch_def playAudio_def notifySequenceProgress_def emit_def
      cueOutputs_def Let_def split: option.splits)

lemma dispatchCues_same [simp]: "dispatchCues evs i i e = e"
  by (simp add: dispatchCues_def)

lemma dispatchCues_Suc:
  "i \<le> j \<Longrightarrow> dispatchCues evs i (Suc j) e = muyuDispatch j (evs ! j) (dispatchCues evs i j e)"
  by (simp add: dispatchCues_def)

lemma dispatchCues_first:
  "i < j \<Longrightarrow> dispatchCues evs i j e = dispatchCues evs (Suc i) j (muyuDispatch i (evs ! i) e)"
  by (simp add: dispatchCues_def upt_conv_Cons)

lemma dispatchCues_frame:
  "isPlaying (dispatchCues evs i j e) = isPlaying e"
  "isPaused (dispatchCues evs i j e) = isPaused e"
  "isLooping (dispatchCues evs i j e) = isLooping e"
  "audioFiles (dispatchCues evs i j e) = audioFiles e"
  "currentSequence (dispatchCues evs i j e) = currentSequence e"
  "muyuStartTime (dispatchCues evs i j e) = muyuStartTime e"
  "tasks (dispatchCues evs i j e) = tasks e"
  "playbackSpeed (dispatchCues evs i j e) = playbackSpeed e"
  "sequenceIndex (dispatchCues evs i j e) = sequenceIndex e"
  "sequenceStartTime (dispatchCues evs i j e) = sequenceStartTime e"
  "(textManager (dispatchCues evs i j e) = None) = (textManager e = None)"
proof -
  have "isPlaying (dispatchCues evs i j e) = isPlaying e
      \<and> isPaused (dispatchCues evs i j e) = isPaused e
      \<and> isLooping (dispatchCues evs i j e) = isLooping e
      \<and> audioFiles (dispatchCues evs i j e) = audioFiles e
      \<and> currentSequence (dispatchCues evs i j e) = currentSequence e
      \<and> muyuStartTime (dispatchCues evs i j e) = muyuStartTime e
      \<and> tasks (dispatchCues evs i j e) = tasks e
      \<and> playbackSpeed (dispatchCues evs i j e) = playbackSpeed e
      \<and> sequenceIndex (dispatchCues evs i j e) = sequenceIndex e
      \<and> sequenceStartTime (dispatchCues evs i j e) = sequenceStartTime e
      \<and> (textManager (dispatchCues evs i j e) = None) = (textManager e = None)"
  proof (induction j)
    case 0
    show ?case by (simp add: dispatchCues_def)
  next
    case (Suc j)
    show ?case
    proof (cases "i \<le> j")
      case True
      then show ?thesis using Suc by (simp add: dispatchCues_Suc muyuDispatch_frame)
    next
      case False
      then show ?thesis by (simp add: dispatchCues_def)
    qed
  qed
  then show
    "isPlaying (dispatchCues evs i j e) = isPlaying e"
    "isPaused (dispatchCues evs i j e) = isPaused e"
    "isLooping (dispatchCues evs i j e) = isLooping e"
    "audioFiles (dispatchCues evs i j e) = audioFiles e"
    "currentSequence (dispatchCues evs i j e) = currentSequence e"
    "muyuStartTime (dispatchCues evs i j e) = muyuStartTime e"
    "tasks (dispatchCues evs i j e) = tasks e"
    "playbackSpeed (dispatchCues evs i j e) = playbackSpeed e"
    "sequenceIndex (dispatchCues evs i j e) = sequenceIndex e"
    "sequenceStartTime (dispatchCues evs i j e) = sequenceStartTime e"
    "(textManager (dispatchCues evs i j e) = None) = (textManager e = None)"
    by simp_all
qed

lemma cuesBetween_same [simp]: "cuesBetween h n evs i i = []"
  by (simp add: cuesBetween_def)

lemma cuesBetween_Suc:
  "i \<le> j \<Longrightarrow> cuesBetween h n evs i (Suc j) = cuesBetween h n evs i j @ cueOutputs h n j (evs ! j)"
  by (simp add: cuesBetween_def)

lemma cuesBetween_join:
  "i \<le> j \<Longrightarrow> j \<le> l \<Longrightarrow> cuesBetween h n evs i j @ cuesBetween h n evs j l = cuesBetween h n evs i l"
proof (induction l)
  case 0
  then show ?case by simp
next
  case (Suc l)
  show ?case
  proof (cases "j = Suc l")
    case True
    then show ?thesis by simp
  next
    case False
    with Suc.prems have "j \<le> l" by simp
    with Suc show ?thesis by (simp add: cuesBetween_Suc)
  qed
qed

lemma dispatchCues_trace:
  assumes "isPlaying e" and "\<forall>ev \<in> set evs. etype ev \<in> audioFiles e"
    and "currentSequence e = Some sq" and "i \<le> j" and "j \<le> length evs"
  shows "trace (dispatchCues evs i j e) =
           trace e @ cuesBetween (textManager e \<noteq> None) (length sq) evs i j"
  using assms(4,5)
proof (induction j)
  case 0
  then show ?case by simp
next
  case (Suc j)
  show ?case
  proof (cases "i = Suc j")
    case True
    then show ?thesis by simp
  next
    case False
    with Suc.prems have ij: "i \<le> j" and jl: "j < length evs" by simp_all
    have "trace (dispatchCues evs i (Suc j) e) =
          trace (dispatchCues evs i j e) @
            cueOutputs (textManager (dispatchCues evs i j e) \<noteq> None) (length sq) j (evs ! j)"
      unfolding dispatchCues_Suc[OF ij]
      by (rule muyuDispatch_trace) (use assms jl in \<open>simp_all add: dispatchCues_frame\<close>)
    then show ?thesis
      using Suc.IH ij jl by (simp add: cuesBetween_Suc dispatchCues_frame)
  qed
qed

lemma muyuLoop_block:
  assumes "isPlaying e" and "\<not> isPaused e" and "i \<le> length evs"
  shows "\<exists>j. i \<le> j \<and> j \<le> length evs \<and>
           muyuLoop k now evs i e =
             (if j < length evs
              then setTask k (MuyuTimer evs j now (waitTimeFor now (muyuStartTime e) (delay (evs ! j)))
                     (now + min (waitTimeFor now (muyuStartTime e) (delay (evs ! j))) 100))
                     (dispatchCues evs i j e)
              else completePlayback now (setTask k Finished (dispatchCues evs i j e)))
           \<and> (j < length evs \<longrightarrow> 0 < waitTimeFor now (muyuStartTime e) (delay (evs ! j)))"
  using assms
proof (induction k now evs i e rule: muyuLoop.induct)
  case (1 k now evs i e)
  show ?case
  proof (cases "i < length evs")
    case False
    have "muyuLoop k now evs i e = completePlayback now (setTask k Finished e)"
      using False by (subst muyuLoop.simps) simp
    then show ?thesis
      using False "1.prems" by (intro exI[of _ i]) simp
  next
    case lt: True
    let ?w = "waitTimeFor now (muyuStartTime e) (delay (evs ! i))"
    show ?thesis
    proof (cases "0 < ?w")
      case True
      then show ?thesis
        using lt "1.prems"
        by (intro exI[of _ i]) (simp add: muyuLoop.simps[of k now evs i e] Let_def)
    next
      case False
      let ?e = "muyuDispatch i (evs ! i) e"
      have pl: "isPlaying ?e" "\<not> isPaused ?e" "i + 1 \<le> length evs"
        using "1.prems" lt by (simp_all add: muyuDispatch_frame)
      have "\<not> (\<not> isPlaying e \<or> isPaused e)" using "1.prems" by simp
      from "1.IH"[OF lt this refl refl False this pl]
      obtain j where j: "i + 1 \<le> j" "j \<le> length evs"
        and eq: "muyuLoop k now evs (i + 1) ?e =
             (if j < length evs
              then setTask k (MuyuTimer evs j now (waitTimeFor now (muyuStartTime ?e) (delay (evs ! j)))
                     (now + min (waitTimeFor now (muyuStartTime ?e) (delay (evs ! j))) 100))
                     (dispatchCues evs (i + 1) j ?e)
              else completePlayback now (setTask k Finished (dispatchCues evs (i + 1) j ?e)))"
        and w: "j < length evs \<longrightarrow> 0 < waitTimeFor now (muyuStartTime ?e) (delay (evs ! j))"
        by blast
      have d: "dispatchCues evs (i + 1) j ?e = dispatchCues evs i j e"
        using j by (simp add: dispatchCues_first)
      have m: "muyuStartTime ?e = muyuStartTime e"
        by (simp add: muyuDispatch_frame)
      have "muyuLoop k now evs i e = muyuLoop k now evs (i + 1) ?e"
        using lt "1.prems" False by (simp add: muyuLoop.simps[of k now evs i e] Let_def)
      also note eq
      finally have res: "muyuLoop k now evs i e =
             (if j < length evs
              then setTask k (MuyuTimer evs j now (waitTimeFor now (muyuStartTime e) (delay (evs ! j)))
                     (now + min (waitTimeFor now (muyuStartTime e) (delay (evs ! j))) 100))
                     (dispatchCues evs i j e)
              else completePlayback now (setTask k Finished (dispatchCues evs i j e)))"
        unfolding d m .
      have "i \<le> j" using j by simp
      moreover note j(2) res
      moreover have "j < length evs \<longrightarrow> 0 < waitTimeFor now (muyuStartTime e) (delay (evs ! j))"
        using w unfolding m .
      ultimately show ?thesis by blast
    qed
  qed
qed

section \<open>The periodic phase under timers, speed changes, pauses and stops\<close>

lemma cueTrace_cueOutputs [simp]: "cueTrace (cueOutputs h n i ev) = cueOutputs h n i ev"
  by (simp add: cueTrace_def cueOutputs_def split: option.splits)

lemma cueTrace_cuesBetween [simp]: "cueTrace (cuesBetween h n evs i j) = cuesBetween h n evs i j"
proof (induction j)
  case 0
  show ?case by (simp add: cuesBetween_def cueTrace_def)
next
  case (Suc j)
  show ?case
  proof (cases "i \<le> j")
    case True
    then show ?thesis using Suc by (simp add: cuesBetween_Suc)
  next
    case False
    then show ?thesis by (simp add: cuesBetween_def cueTrace_def)
  qed
qed

lemma taskAt_setTask [simp]: "k < length (tasks e) \<Longrightarrow> taskAt (setTask k t e) k = t"
  by (simp add: taskAt_def setTask_def)

lemma taskAt_less: "taskAt e k \<noteq> Finished \<Longrightarrow> k < length (tasks e)"
  by (auto simp: taskAt_def split: if_splits)

lemma setTask_frame [simp]:
  "trace (setTask k t e) = trace e"
  "isPlaying (setTask k t e) = isPlaying e"
  "isPaused (setTask k t e) = isPaused e"
  "isLooping (setTask k t e) = isLooping e"
  "audioFiles (setTask k t e) = audioFiles e"
  "currentSequence (setTask k t e) = currentSequence e"
  "muyuStartTime (setTask k t e) = muyuStartTime e"
  "textManager (setTask k t e) = textManager e"
  "playbackSpeed (setTask k t e) = playbackSpeed e"
  "sequenceIndex (setTask k t e) = sequenceIndex e"
  "sequenceStartTime (setTask k t e) = sequenceStartTime e"
  "length (tasks (setTask k t e)) = length (tasks e)"
  by (simp_all add: setTask_def)

lemma completePlayback_frame:
  "cueTrace (trace (completePlayback now e)) = cueTrace (trace e)"
  "audioFiles (completePlayback now e) = audioFiles e"
  "currentSequence (completePlayback now e) = currentSequence e"
  "muyuStartTime (completePlayback now e) = muyuStartTime e"
  "(textManager (completePlayback now e) = None) = (textManager e = None)"
  "isPlaying (completePlayback now e) \<Longrightarrow> isPlaying e"
  "k < length (tasks e) \<Longrightarrow> taskAt (completePlayback now e) k = taskAt e k"
  by (auto simp: completePlayback_def notifySequenceComplete_def notifyPlayStateChange_def
      emit_def cueTrace_def taskAt_def nth_append split: option.splits)

lemma periodic_block:
  assumes "k < length (tasks e)" and "isPlaying e" and "\<not> isPaused e"
    and "currentSequence e = Some sq" and "\<forall>ev \<in> set evs. etype ev \<in> audioFiles e"
    and "i \<le> length evs" and "(textManager e \<noteq> None) = h"
  shows "\<exists>j. periodicInv k evs sq h (cueTrace (trace e)) i j (muyuLoop k now evs i e)"
proof -
  from muyuLoop_block[OF assms(2,3,6), of k now]
  obtain j where j: "i \<le> j" "j \<le> length evs"
    and eq: "muyuLoop k now evs i e =
             (if j < length evs
              then setTask k (MuyuTimer evs j now (waitTimeFor now (muyuStartTime e) (delay (evs ! j)))
                     (now + min (waitTimeFor now (muyuStartTime e) (delay (evs ! j))) 100))
                     (dispatchCues evs i j e)
              else completePlayback now (setTask k Finished (dispatchCues evs i j e)))"
    by blast
  let ?d = "dispatchCues evs i j e"
  have tr: "trace ?d = trace e @ cuesBetween h (length sq) evs i j"
    using dispatchCues_trace[OF assms(2,5,4) j] assms(7) by simp
  have kd: "k < length (tasks ?d)" using assms(1) by (simp add: dispatchCues_frame)
  have tm: "(textManager ?d \<noteq> None) = h" using assms(7) by (simp add: dispatchCues_frame)
  have cs: "currentSequence ?d = Some sq" using assms(4) by (simp add: dispatchCues_frame)
  have au: "\<forall>ev \<in> set evs. etype ev \<in> audioFiles ?d" using assms(5) by (simp add: dispatchCues_frame)
  show ?thesis
  proof (cases "j < length evs")
    case True
    then have "periodicInv k evs sq h (cueTrace (trace e)) i j (muyuLoop k now evs i e)"
      unfolding eq using j tr kd tm cs au
      by (simp add: periodicInv_def loopAt_def)
    then show ?thesis ..
  next
    case False
    let ?c = "completePlayback now (setTask k Finished ?d)"
    have k2: "k < length (tasks (setTask k Finished ?d))" using kd by simp
    have "taskAt ?c k = Finished"
      using completePlayback_frame(7)[OF k2, of now] kd by simp
    moreover have "cueTrace (trace ?c) = cueTrace (trace e) @ cuesBetween h (length sq) evs i j"
      using tr by (simp add: completePlayback_frame)
    moreover have "(textManager ?c \<noteq> None) = h"
      using tm completePlayback_frame(5)[of now "setTask k Finished ?d"] by simp
    moreover have "currentSequence ?c = Some sq"
      using cs by (simp add: completePlayback_frame)
    moreover have "\<forall>ev \<in> set evs. etype ev \<in> audioFiles ?c"
      using au by (simp add: completePlayback_frame)
    ultimately have "periodicInv k evs sq h (cueTrace (trace e)) i j (muyuLoop k now evs i e)"
      unfolding eq using False j by (simp add: periodicInv_def loopAt_def)
    then show ?thesis ..
  qed
qed


lemma periodicInv_shift:
  assumes "periodicInv k evs sq h (base @ cuesBetween h (length sq) evs i m) m j e" and "i \<le> m"
  shows "periodicInv k evs sq h base i j e"
  using assms cuesBetween_join[of i m j h "length sq" evs]
  by (simp add: periodicInv_def)

lemma periodic_afterWait:
  assumes inv: "periodicInv k evs sq h base i j e"
    and task: "taskAt e k = MuyuTimer evs j st d due"
  shows "\<exists>j'. j \<le> j' \<and> periodicInv k evs sq h base i j' (muyuAfterWait k now evs j e)"
proof (cases "\<not> isPlaying e \<or> isPaused e")
  case True
  have "k < length (tasks e)" using task by (intro taskAt_less) simp
  then have "periodicInv k evs sq h base i j (muyuAfterWait k now evs j e)"
    using inv True task by (simp add: muyuAfterWait_def periodicInv_def loopAt_def)
  then show ?thesis by blast
next
  case False
  then have pl: "isPlaying e" "\<not> isPaused e" by simp_all
  have jl: "j < length evs" and ij: "i \<le> j"
    and tr: "cueTrace (trace e) = base @ cuesBetween h (length sq) evs i j"
    and tm: "(textManager e \<noteq> None) = h"
    and cs: "currentSequence e = Some sq"
    and au: "\<forall>ev \<in> set evs. etype ev \<in> audioFiles e"
    using inv task pl by (simp_all add: periodicInv_def loopAt_def)
  have k: "k < length (tasks e)" using task by (intro taskAt_less) simp
  let ?e = "muyuDispatch j (evs ! j) e"
  have tr': "cueTrace (trace ?e) = base @ cuesBetween h (length sq) evs i (Suc j)"
    using muyuDispatch_trace[OF pl(1) _ cs, of "evs ! j" j] au jl tr tm ij
    by (simp add: cuesBetween_Suc)
  have "\<exists>j'. periodicInv k evs sq h (cueTrace (trace ?e)) (Suc j) j' (muyuLoop k now evs (Suc j) ?e)"
    by (rule periodic_block) (use k pl cs au jl tm in \<open>simp_all add: muyuDispatch_frame\<close>)
  then obtain j' where
    p: "periodicInv k evs sq h (base @ cuesBetween h (length sq) evs i (Suc j)) (Suc j) j'
          (muyuLoop k now evs (Suc j) ?e)"
    unfolding tr' by blast
  have "periodicInv k evs sq h base i j' (muyuLoop k now evs (Suc j) ?e)"
    by (rule periodicInv_shift[OF p]) (use ij in simp)
  moreover have "Suc j \<le> j'" using p by (simp add: periodicInv_def)
  moreover have "muyuAfterWait k now evs j e = muyuLoop k now evs (Suc j) ?e"
    using pl by (simp add: muyuAfterWait_def)
  ultimately show ?thesis by (intro exI[of _ j']) simp
qed

lemma periodic_timerFired:
  assumes inv: "periodicInv k evs sq h base i j e"
  shows "\<exists>j'. j \<le> j' \<and> periodicInv k evs sq h base i j' (timerFired k now e)"
proof (cases "taskAt e k")
  case Finished
  then have "timerFired k now e = e" by (simp add: timerFired_def)
  then show ?thesis using inv by auto
next
  case (MuyuTimer evs' j' st d due)
  with inv have same: "evs' = evs" "j' = j" by (simp_all add: periodicInv_def loopAt_def)
  have task: "taskAt e k = MuyuTimer evs j st d due" using MuyuTimer same by simp
  have k: "k < length (tasks e)" using task by (intro taskAt_less) simp
  have aw: "\<exists>j'. j \<le> j' \<and> periodicInv k evs sq h base i j' (muyuAfterWait k now evs j e)"
    by (rule periodic_afterWait[OF inv task])
  have keep: "periodicInv k evs sq h base i j (setTask k (MuyuTimer evs j st d due') e)" for due'
    using inv k task by (simp add: periodicInv_def loopAt_def)
  have "timerFired k now e = muyuCheckAndWait k now evs j st d e"
    using task by (simp add: timerFired_def)
  then show ?thesis
    using aw keep by (auto simp: muyuCheckAndWait_def Let_def)
next
  case AwaitBowl
  with inv show ?thesis by (simp add: periodicInv_def loopAt_def)
next
  case (AwaitEvent x)
  with inv show ?thesis by (simp add: periodicInv_def loopAt_def)
next
  case (SeqTimer x1 x2 x3 x4)
  with inv show ?thesis by (simp add: periodicInv_def loopAt_def)
next
  case (RestartTimer x)
  with inv show ?thesis by (simp add: periodicInv_def loopAt_def)
qed

lemma periodic_other:
  assumes inv: "periodicInv k evs sq h base i j e"
  shows "periodicInv k evs sq h base i j (setPlaybackSpeed speed now e)"
    and "periodicInv k evs sq h base i j (setLooping looping e)"
    and "periodicInv k evs sq h base i j (pausePlayback e)"
    and "periodicInv k evs sq h base i j (cueRejected audioKey err e)"
    and "periodicInv k evs sq h base i j (stopPlayback e)"
  using inv
  by (auto simp: periodicInv_def loopAt_def taskAt_def setPlaybackSpeed_def adjustPlaybackSpeed_def
      setLooping_def pausePlayback_def cueRejected_def stopPlayback_def notifyPlayStateChange_def
      emit_def cueTrace_def Let_def split: option.splits)

lemma periodic_settled:
  assumes "periodicInv k evs sq h base i j e"
  shows "audioEnded k now e = e" and "playRejected k err now e = e"
  using assms
  by (auto simp: periodicInv_def loopAt_def audioEnded_def playRejected_def split: task.splits)

lemma periodic_step:
  assumes "periodicInv k evs sq h base i j e" and "runEvent k ev"
  shows "\<exists>j'. j \<le> j' \<and> periodicInv k evs sq h base i j' (step ev e)"
proof (cases ev)
  case (TimerFired k' now)
  with assms(2) have "k' = k" by simp
  then show ?thesis using TimerFired periodic_timerFired[OF assms(1)] by simp
next
  case (AudioEnded k' now)
  with assms(2) have "k' = k" by simp
  then show ?thesis using AudioEnded assms(1) periodic_settled(1)[OF assms(1)] by auto
next
  case (PlayRejected k' err now)
  with assms(2) have "k' = k" by simp
  then show ?thesis using PlayRejected assms(1) periodic_settled(2)[OF assms(1)] by auto
qed (use assms periodic_other[OF assms(1)] in auto)

lemma periodic_run:
  assumes "periodicInv k evs sq h base i j e" and "list_all (runEvent k) sched"
  shows "\<exists>j'. j \<le> j' \<and> periodicInv k evs sq h base i j' (run sched e)"
  using assms
proof (induction sched arbitrary: j e)
  case Nil
  then show ?case by (auto simp: run_def)
next
  case (Cons ev sched)
  from Cons.prems periodic_step[of k evs sq h base i j e ev]
  obtain j1 where j1: "j \<le> j1" "periodicInv k evs sq h base i j1 (step ev e)" by auto
  from Cons.IH[OF j1(2)] Cons.prems(2)
  obtain j2 where "j1 \<le> j2" "periodicInv k evs sq h base i j2 (run sched (step ev e))" by auto
  with j1 show ?case by (intro exI[of _ j2]) (simp add: run_def)
qed

section \<open>A speed change in the periodic phase\<close>

lemmas engine_defs = startPlayback_def startPlaybackSequence_def executeSequenceInPhases_def
  phaseTwo_def settle_def playAudio_def notifyPlayStateChange_def notifySequenceProgress_def
  notifySequenceComplete_def handleError_def emit_def setTask_def taskAt_def
  createPlaybackSequence_def getCharacterData_def characterAccessor_def charDataAt_def getsMuyu_def
  muyuEvent_def bowlEvent_def
  timerFired_def audioEnded_def playRejected_def cueRejected_def bowlEnded_def bowlRejected_def
  muyuCheckAndWait_def muyuAfterWait_def muyuDispatch_def waitTimeFor_def completePlayback_def
  stopPlayback_def pausePlayback_def resumePlayback_def setPlaybackSpeed_def adjustPlaybackSpeed_def
  setLooping_def restartFired_def seqAfterWait_def seqAfterPlay_def seqContinue_def
  seqCheckAndWait_def eventEnded_def eventRejected_def
  highlightCharacter_def clearHighlight_def scrollToCurrentLine_def markCompleted_def resetPosition_def
  freshEngine_def newEngine_def sampleLyrics_def sampleChars_def

lemmas upt_small = upt_rec[of 0] upt_rec[of 1] upt_rec[of 2] upt_rec[of 3]
  upt_rec[of "Suc 0"] upt_rec[of "Suc (Suc 0)"]

lemma periodicRun_state:
  "periodicRun =
     \<lparr> audioFiles = {Muyu, Bowl}, isPlaying = True, isPaused = False, isLooping = False,
       playbackSpeed = 1,
       currentSequence = Some [bowlEvent, muyuEvent 0 1000 0, muyuEvent 1 1000 2],
       sequenceIndex = 0, sequenceStartTime = 0, muyuStartTime = Some 5000,
       textManager = Some (highlightCharacter 0 sampleLyrics),
       tasks = [MuyuTimer [muyuEvent 0 1000 0, muyuEvent 1 1000 2] 1 5000 1000 5100],
       trace = [PlayStateChange True False, AudioPlay Bowl, Log BowlFinished, AudioPlay Muyu,
                HighlightCall 0, SequenceProgress 0 (muyuEvent 0 1000 0) 3] \<rparr>"
  by (simp add: periodicRun_def run_def engine_defs Let_def muyuLoop.simps upt_small)

text \<open>
  Claim C3. While the periodic loop waits for cue \<open>i\<close>, \<^verbatim>\<open>setPlaybackSpeed\<close> starts
  nothing and plays nothing: the suspended loop, the sequence and both counters are left as
  they are. Whatever the new speed and however the timers fire afterwards, with the change
  or without it, the cues that follow are \<open>i, i + 1, \<dots>\<close>, each once and in order: none is
  fired again and none is skipped.
\<close>

theorem setPlaybackSpeed_keeps_cursor:
  assumes "taskAt e k = MuyuTimer evs i st d due" and "i < length evs"
    and "isPlaying e" and "currentSequence e = Some sq"
    and "\<forall>ev \<in> set evs. etype ev \<in> audioFiles e"
    and "list_all (runEvent k) sched"
  shows "tasks (setPlaybackSpeed s now e) = tasks e
       \<and> cueTrace (trace (setPlaybackSpeed s now e)) = cueTrace (trace e)
       \<and> isPlaying (setPlaybackSpeed s now e) = isPlaying e
       \<and> isPaused (setPlaybackSpeed s now e) = isPaused e
       \<and> currentSequence (setPlaybackSpeed s now e) = currentSequence e
       \<and> sequenceIndex (setPlaybackSpeed s now e) = sequenceIndex e
       \<and> (\<exists>j \<ge> i. loopAt k evs j (run (SetPlaybackSpeed s now # sched) e)
              \<and> cueTrace (trace (run (SetPlaybackSpeed s now # sched) e)) =
                  cueTrace (trace e) @ cuesBetween (textManager e \<noteq> None) (length sq) evs i j)
       \<and> (\<exists>j \<ge> i. loopAt k evs j (run sched e)
              \<and> cueTrace (trace (run sched e)) =
                  cueTrace (trace e) @ cuesBetween (textManager e \<noteq> None) (length sq) evs i j)"
proof -
  have frame: "tasks (setPlaybackSpeed s now e) = tasks e
       \<and> cueTrace (trace (setPlaybackSpeed s now e)) = cueTrace (trace e)
       \<and> isPlaying (setPlaybackSpeed s now e) = isPlaying e
       \<and> isPaused (setPlaybackSpeed s now e) = isPaused e
       \<and> currentSequence (setPlaybackSpeed s now e) = currentSequence e
       \<and> sequenceIndex (setPlaybackSpeed s now e) = sequenceIndex e"
    by (simp add: setPlaybackSpeed_def adjustPlaybackSpeed_def emit_def cueTrace_def Let_def
        split: option.splits)
  have inv: "periodicInv k evs sq (textManager e \<noteq> None) (cueTrace (trace e)) i i e"
    using assms(1-5) by (simp add: periodicInv_def loopAt_def)
  have all: "\<exists>j \<ge> i. loopAt k evs j (run sc e)
              \<and> cueTrace (trace (run sc e)) =
                  cueTrace (trace e) @ cuesBetween (textManager e \<noteq> None) (length sq) evs i j"
    if "list_all (runEvent k) sc" for sc
    using periodic_run[OF inv that] by (auto simp: periodicInv_def)
  have "list_all (runEvent k) (SetPlaybackSpeed s now # sched)"
    using assms(6) by simp
  from all[OF this] all[OF assms(6)] frame show ?thesis by blast
qed

theorem setPlaybackSpeed_keeps_cursor_witness:
  "tasks (setPlaybackSpeed 2 5050 periodicRun) = tasks periodicRun
   \<and> muyuStartTime (setPlaybackSpeed 2 5050 periodicRun) = Some 5025
   \<and> (\<exists>j \<ge> 1. loopAt 0 [muyuEvent 0 1000 0, muyuEvent 1 1000 2] j
                  (run [SetPlaybackSpeed 2 5050, TimerFired 0 6000] periodicRun)
          \<and> cueTrace (trace (run [SetPlaybackSpeed 2 5050, TimerFired 0 6000] periodicRun)) =
              cueTrace (trace periodicRun) @
                cuesBetween True 3 [muyuEvent 0 1000 0, muyuEvent 1 1000 2] 1 j)
   \<and> cueTrace (trace (run [SetPlaybackSpeed 2 5050, TimerFired 0 6000] periodicRun)) =
       cueTrace (trace periodicRun) @
         [AudioPlay Muyu, HighlightCall 2, SequenceProgress 1 (muyuEvent 1 1000 2) 3]"
proof -
  let ?evs = "[muyuEvent 0 1000 0, muyuEvent 1 1000 2]"
  have h: "taskAt periodicRun 0 = MuyuTimer ?evs 1 5000 1000 5100" "1 < length ?evs"
    "isPlaying periodicRun"
    "currentSequence periodicRun = Some [bowlEvent, muyuEvent 0 1000 0, muyuEvent 1 1000 2]"
    "\<forall>ev \<in> set ?evs. etype ev \<in> audioFiles periodicRun"
    "list_all (runEvent 0) [TimerFired 0 6000]"
    by (simp_all add: periodicRun_state taskAt_def muyuEvent_def)
  have tm: "textManager periodicRun \<noteq> None" by (simp add: periodicRun_state)
  have a: "muyuStartTime (setPlaybackSpeed 2 5050 periodicRun) = Some 5025"
    by (simp add: periodicRun_state setPlaybackSpeed_def adjustPlaybackSpeed_def Let_def)
  have c: "cueTrace (trace (run [SetPlaybackSpeed 2 5050, TimerFired 0 6000] periodicRun)) =
       cueTrace (trace periodicRun) @
         [AudioPlay Muyu, HighlightCall 2, SequenceProgress 1 (muyuEvent 1 1000 2) 3]"
    by (simp add: periodicRun_state run_def engine_defs Let_def muyuLoop.simps upt_small
        cueTrace_def)
  from setPlaybackSpeed_keeps_cursor[OF h, of 2 5050] tm a c show ?thesis
    by (simp add: numeral_3_eq_3)
qed

section \<open>Starting with no text\<close>

text \<open>
  Claim C6, as stated, fails on the sample text manager with no characters:
  \<^verbatim>\<open>startPlayback\<close> ends with the error, no start cue is played and no completion is
  reported.
\<close>

theorem startPlayback_empty_counterexample:
  "fst (startPlayback (Some emptyLyrics) 0 freshEngine) = Some EmptyText
   \<and> trace (snd (startPlayback (Some emptyLyrics) 0 freshEngine)) = [OnError EmptyText]
   \<and> AudioPlay Bowl \<notin> set (trace (snd (startPlayback (Some emptyLyrics) 0 freshEngine)))
   \<and> SequenceComplete \<notin> set (trace (snd (startPlayback (Some emptyLyrics) 0 freshEngine)))"
  by (simp add: startPlayback_def emptyLyrics_def handleError_def emit_def freshEngine_def
      newEngine_def)

text \<open>
  Claim C6, amended. For an absent text manager or a text with no characters,
  \<^verbatim>\<open>startPlayback\<close> is an error: it reports the error through \<^verbatim>\<open>onError\<close> and
  throws it; no cue is played, no completion is reported, and the engine is otherwise left as
  it was.
\<close>

theorem startPlayback_empty_rejected:
  assumes "tmArg = None \<or> (\<exists>tm. tmArg = Some tm \<and> characters tm = [])"
  shows "startPlayback tmArg now e = (Some EmptyText, e\<lparr>trace := trace e @ [OnError EmptyText]\<rparr>)"
  using assms by (auto simp: startPlayback_def handleError_def emit_def)

theorem startPlayback_empty_rejected_witness:
  "startPlayback (Some emptyLyrics) 0 freshEngine =
     (Some EmptyText, freshEngine\<lparr>trace := [OnError EmptyText]\<rparr>)
   \<and> startPlayback None 0 freshEngine =
     (Some EmptyText, freshEngine\<lparr>trace := [OnError EmptyText]\<rparr>)"
proof -
  have "characters emptyLyrics = []" by (simp add: emptyLyrics_def)
  then have a: "Some emptyLyrics = None \<or> (\<exists>tm. Some emptyLyrics = Some tm \<and> characters tm = [])"
    by simp
  have b: "None = None \<or> (\<exists>tm. (None :: lyrics option) = Some tm \<and> characters tm = [])"
    by simp
  from startPlayback_empty_rejected[OF a, of 0 freshEngine]
    startPlayback_empty_rejected[OF b, of 0 freshEngine]
  show ?thesis by (simp add: freshEngine_def newEngine_def)
qed

section \<open>Completion with looping enabled\<close>

text \<open>
  Claim C5 against the code. When the sequence completes with looping enabled,
  \<^verbatim>\<open>completePlayback\<close> resets the highlight and sets the restart timer, but leaves
  \<^verbatim>\<open>isPlaying\<close> set. When the timer fires, \<^verbatim>\<open>startPlayback\<close> runs into the guard
  of \<^verbatim>\<open>startPlaybackSequence\<close>: the only effect is the warning that playback is already
  in progress. No start cue is played and no new run begins.
\<close>

theorem loop_restart_rejected:
  assumes "isLooping e" and "textManager e = Some tm" and "characters tm \<noteq> []"
    and "isPlaying e"
  shows "isPlaying (completePlayback now e)
       \<and> trace (completePlayback now e) = trace e
       \<and> tasks (completePlayback now e) = tasks e @ [RestartTimer (now + 1000)]
       \<and> trace (timerFired (length (tasks e)) later (completePlayback now e)) =
           trace e @ [Log AlreadyPlaying]
       \<and> tasks (timerFired (length (tasks e)) later (completePlayback now e)) =
           tasks e @ [Finished]
       \<and> currentSequence (timerFired (length (tasks e)) later (completePlayback now e)) =
           currentSequence e
       \<and> isPlaying (timerFired (length (tasks e)) later (completePlayback now e))"
  using assms
  by (simp add: completePlayback_def timerFired_def taskAt_def restartFired_def startPlayback_def
      startPlaybackSequence_def settle_def setTask_def emit_def resetPosition_def
      clearHighlight_def Let_def)

theorem loop_restart_rejected_witness:
  "trace loopingRun =
     [PlayStateChange True False, AudioPlay Bowl, Log BowlFinished,
      AudioPlay Muyu, HighlightCall 0, SequenceProgress 0 (muyuEvent 0 1000 0) 3,
      AudioPlay Muyu, HighlightCall 2, SequenceProgress 1 (muyuEvent 1 1000 2) 3,
      Log AlreadyPlaying]
   \<and> tasks loopingRun = [Finished, Finished]
   \<and> isPlaying loopingRun
   \<and> isPlaying (completePlayback 6000 (periodicRun\<lparr>isLooping := True\<rparr>))"
proof -
  have r: "trace loopingRun =
     [PlayStateChange True False, AudioPlay Bowl, Log BowlFinished,
      AudioPlay Muyu, HighlightCall 0, SequenceProgress 0 (muyuEvent 0 1000 0) 3,
      AudioPlay Muyu, HighlightCall 2, SequenceProgress 1 (muyuEvent 1 1000 2) 3,
      Log AlreadyPlaying]
   \<and> tasks loopingRun = [Finished, Finished] \<and> isPlaying loopingRun"
    by (simp add: loopingRun_def run_def engine_defs Let_def muyuLoop.simps upt_small)
  have h: "isLooping (periodicRun\<lparr>isLooping := True\<rparr>)"
    "textManager (periodicRun\<lparr>isLooping := True\<rparr>) = Some (highlightCharacter 0 sampleLyrics)"
    "characters (highlightCharacter 0 sampleLyrics) \<noteq> []"
    "isPlaying (periodicRun\<lparr>isLooping := True\<rparr>)"
    by (simp_all add: periodicRun_state engine_defs Let_def)
  from loop_restart_rejected[OF h, of 6000] r show ?thesis by simp
qed

section \<open>The start cue and the periodic phase\<close>



lemma stopPlayback_frame:
  "cueTrace (trace (stopPlayback e)) = cueTrace (trace e)"
  "tasks (stopPlayback e) = tasks e"
  "muyuStartTime (stopPlayback e) = muyuStartTime e"
  "audioFiles (stopPlayback e) = audioFiles e"
  "\<not> isPlaying (stopPlayback e)"
  "(textManager (stopPlayback e) = None) = (textManager e = None)"
  by (auto simp: stopPlayback_def notifyPlayStateChange_def emit_def cueTrace_def Let_def
      split: option.splits)




lemma taskAt_same: "tasks e' = tasks e \<Longrightarrow> taskAt e' k = taskAt e k"
  by (simp add: taskAt_def)










section \<open>A failing cue does not stop the sequence\<close>



















section \<open>Pause and resume\<close>

text \<open>
  \<^verbatim>\<open>resumePlayback\<close> calls \<^verbatim>\<open>executeSequence\<close>, whose counter
  \<^verbatim>\<open>sequenceIndex\<close> the periodic loop never advances: in the periodic phase the sound
  it dispatches is the start cue again, in a second walk of the sequence beside the
  suspended periodic loop.
\<close>

lemma resumePlayback_walks_from_start:
  assumes "isPlaying e" and "isPaused e" and "currentSequence e = Some (bowlEvent # rest)"
    and "sequenceIndex e = 0" and "Bowl \<in> audioFiles e" and "sequenceStartTime e \<le> now"
  shows "trace (resumePlayback now e) = trace e @ [PlayStateChange True False, AudioPlay Bowl]
       \<and> tasks (resumePlayback now e) = tasks e @ [AwaitEvent bowlEvent]
       \<and> muyuStartTime (resumePlayback now e) = muyuStartTime e
       \<and> sequenceIndex (resumePlayback now e) = 0"
  using assms
  by (simp add: resumePlayback_def executeSequence.simps seqAfterWait_def playAudio_def
      notifyPlayStateChange_def settle_def setTask_def emit_def bowlEvent_def Let_def)

lemma keeps_refl: "n \<le> length (tasks e) \<Longrightarrow> keeps n e e"
  by (simp add: keeps_def)

lemma keeps_trans: "keeps n e e' \<Longrightarrow> keeps n e' e'' \<Longrightarrow> keeps n e e''"
  by (simp add: keeps_def)

lemma keeps_taskAt: "keeps n e e' \<Longrightarrow> k < n \<Longrightarrow> taskAt e' k = taskAt e k"
proof -
  assume a: "keeps n e e'" and k: "k < n"
  then have "take n (tasks e') ! k = take n (tasks e) ! k" by (simp add: keeps_def)
  then have "tasks e' ! k = tasks e ! k" using k by simp
  moreover have "k < length (tasks e')" using a k by (simp add: keeps_def)
  moreover have "n \<le> length (tasks e)"
  proof -
    have "length (take n (tasks e')) = length (take n (tasks e))" using a by (simp add: keeps_def)
    then show ?thesis using a by (simp add: keeps_def min_def split: if_splits)
  qed
  ultimately show ?thesis using k by (simp add: taskAt_def)
qed

lemma keeps_same:
  "muyuStartTime e' = muyuStartTime e \<Longrightarrow> tasks e' = tasks e \<Longrightarrow> n \<le> length (tasks e)
   \<Longrightarrow> keeps n e e'"
  by (simp add: keeps_def)

lemma keeps_setTask: "n \<le> k \<Longrightarrow> n \<le> length (tasks e) \<Longrightarrow> keeps n e (setTask k t e)"
  by (simp add: keeps_def setTask_def)

lemma keeps_completePlayback: "n \<le> length (tasks e) \<Longrightarrow> keeps n e (completePlayback now e)"
  by (simp add: keeps_def completePlayback_def notifySequenceComplete_def
      notifyPlayStateChange_def emit_def split: option.splits)

lemma keeps_stopPlayback: "n \<le> length (tasks e) \<Longrightarrow> keeps n e (stopPlayback e)"
  by (simp add: keeps_def stopPlayback_frame)

lemma keeps_settle:
  assumes "n \<le> k" and "n \<le> length (tasks e)"
  shows "keeps n e (settle k (r, e))"
proof (cases r)
  case None
  then show ?thesis using assms by (simp add: settle_def keeps_def)
next
  case (Some err)
  have "keeps n e (handleError err (setTask k Finished e))"
    using assms by (simp add: keeps_def handleError_def emit_def setTask_def)
  moreover have "keeps n (handleError err (setTask k Finished e))
                   (stopPlayback (handleError err (setTask k Finished e)))"
    by (rule keeps_stopPlayback) (use assms in \<open>simp add: handleError_def emit_def setTask_def\<close>)
  ultimately show ?thesis using Some by (simp add: settle_def keeps_trans)
qed

lemma keeps_seqAfterPlay:
  assumes "n \<le> length (tasks e)"
  shows "case seqAfterPlay ev e of Next e' \<Rightarrow> keeps n e e' | Stop r e' \<Rightarrow> keeps n e e'"
  using assms
  by (auto simp: seqAfterPlay_def notifySequenceProgress_def emit_def keeps_def Let_def
      split: option.splits)

lemma keeps_seqAfterWait:
  assumes "n \<le> k" and "n \<le> length (tasks e)"
  shows "case seqAfterWait k ev e of Next e' \<Rightarrow> keeps n e e' | Stop r e' \<Rightarrow> keeps n e e'"
proof (cases "\<not> isPlaying e \<or> isPaused e")
  case True
  then show ?thesis using assms by (simp add: seqAfterWait_def keeps_setTask)
next
  case False
  show ?thesis
  proof (cases "etype ev \<in> audioFiles e")
    case miss: False
    then show ?thesis
      using False assms
      by (simp add: seqAfterWait_def playAudio_def handleError_def emit_def keeps_def)
  next
    case True
    let ?e = "emit (AudioPlay (etype ev)) e"
    have k1: "keeps n e ?e" using assms by (simp add: keeps_def emit_def)
    have n1: "n \<le> length (tasks ?e)" using assms by (simp add: emit_def)
    show ?thesis
    proof (cases "noWait ev")
      case nw: True
      have "seqAfterWait k ev e = seqAfterPlay ev ?e"
        using False True nw by (simp add: seqAfterWait_def playAudio_def)
      then show ?thesis
        using keeps_seqAfterPlay[OF n1, of ev] k1
        by (auto split: pass.splits intro: keeps_trans)
    next
      case nw: False
      have "seqAfterWait k ev e = Stop None (setTask k (AwaitEvent ev) ?e)"
        using False True nw by (simp add: seqAfterWait_def playAudio_def)
      then show ?thesis
        using keeps_setTask[OF assms(1) n1, of "AwaitEvent ev"] k1
        by (auto intro: keeps_trans)
    qed
  qed
qed

lemma keeps_executeSequence:
  assumes "n \<le> k" and "n \<le> length (tasks e)"
  shows "keeps n e (snd (executeSequence k now e))"
  using assms
proof (induction k now e rule: executeSequence.induct)
  case (1 k now e)
  have fin: "keeps n e (completePlayback now (setTask k Finished e))"
    using keeps_setTask[OF "1.prems", of Finished]
      keeps_completePlayback[of n "setTask k Finished e" now] "1.prems"
    by (auto intro: keeps_trans)
  show ?case
  proof (cases "currentSequence e")
    case None
    then show ?thesis using fin by (subst executeSequence.simps) simp
  next
    case (Some sq)
    show ?thesis
    proof (cases "length sq \<le> sequenceIndex e")
      case True
      then show ?thesis using fin Some by (subst executeSequence.simps) simp
    next
      case False
      let ?ev = "sq ! sequenceIndex e"
      define w where "w = max 0 (delay ?ev - (now - sequenceStartTime e))"
      have unfold: "executeSequence k now e =
          (if w > 0 then (None, setTask k (SeqTimer ?ev now w (now + min w 100)) e)
           else (case seqAfterWait k ?ev e of
                   Next e' \<Rightarrow> executeSequence k now e'
                 | Stop r e' \<Rightarrow> (r, e')))"
        using Some False by (subst executeSequence.simps) (simp add: Let_def w_def)
      show ?thesis
      proof (cases "0 < w")
        case True
        then show ?thesis
          using keeps_setTask[OF "1.prems"] unfolding unfold by simp
      next
        case nowait: False
        then have nw: "\<not> 0 < max 0 (delay ?ev - (now - sequenceStartTime e))"
          by (simp add: w_def)
        show ?thesis
        proof (cases "seqAfterWait k ?ev e")
          case (Next e')
          with keeps_seqAfterWait[OF "1.prems", of ?ev] have ke: "keeps n e e'" by simp
          then have n': "n \<le> length (tasks e')" by (simp add: keeps_def)
          have "keeps n e' (snd (executeSequence k now e'))"
            using "1.IH"[OF Some False refl refl nw Next "1.prems"(1) n'] .
          moreover have "executeSequence k now e = executeSequence k now e'"
            unfolding unfold using nowait Next by simp
          ultimately show ?thesis using ke by (auto intro: keeps_trans)
        next
          case (Stop r e')
          with keeps_seqAfterWait[OF "1.prems", of ?ev] have ke: "keeps n e e'" by simp
          moreover have "executeSequence k now e = (r, e')"
            unfolding unfold using nowait Stop by simp
          ultimately show ?thesis by simp
        qed
      qed
    qed
  qed
qed

lemma keeps_resumePlayback:
  shows "keeps (length (tasks e)) e (resumePlayback now e)"
proof (cases "isPlaying e \<and> isPaused e")
  case False
  then have "resumePlayback now e = e" by (auto simp: resumePlayback_def)
  then show ?thesis by (simp add: keeps_def)
next
  case True
  let ?n = "length (tasks e)"
  let ?e1 = "notifyPlayStateChange True (e\<lparr>isPaused := False\<rparr>)"
  let ?e2 = "?e1\<lparr>tasks := tasks ?e1 @ [Finished]\<rparr>"
  have t1: "tasks ?e1 = tasks e" by (simp add: notifyPlayStateChange_def emit_def)
  have r: "resumePlayback now e = settle ?n (executeSequence ?n now ?e2)"
    using True by (simp add: resumePlayback_def Let_def t1)
  have k2: "keeps ?n e ?e2"
    by (simp add: keeps_def notifyPlayStateChange_def emit_def)
  have n2: "?n \<le> length (tasks ?e2)" by (simp add: t1)
  obtain res e3 where x: "executeSequence ?n now ?e2 = (res, e3)" by (cases "executeSequence ?n now ?e2")
  have k3: "keeps ?n ?e2 e3"
    using keeps_executeSequence[OF order_refl n2, of now] x by simp
  then have "?n \<le> length (tasks e3)" by (simp add: keeps_def)
  from keeps_settle[OF order_refl this, of res] have "keeps ?n e3 (settle ?n (res, e3))" .
  with k2 k3 show ?thesis unfolding r x by (auto intro: keeps_trans)
qed


lemma paused_polls:
  assumes "taskAt q k = MuyuTimer evs i st d due" and "isPlaying q" and "isPaused q"
  shows "taskAt (run (map (TimerFired k) ts) q) k =
           MuyuTimer evs i st d (if ts = [] then due else last ts + 100)
       \<and> trace (run (map (TimerFired k) ts) q) = trace q
       \<and> muyuStartTime (run (map (TimerFired k) ts) q) = muyuStartTime q
       \<and> isPlaying (run (map (TimerFired k) ts) q)
       \<and> isPaused (run (map (TimerFired k) ts) q)"
  using assms
proof (induction ts arbitrary: q due)
  case Nil
  then show ?case by (simp add: run_def)
next
  case (Cons t ts)
  let ?q = "setTask k (MuyuTimer evs i st d (t + 100)) q"
  have k: "k < length (tasks q)" using Cons.prems(1) by (intro taskAt_less) simp
  have st: "timerFired k t q = ?q"
    using Cons.prems by (simp add: timerFired_def muyuCheckAndWait_def)
  have r: "run (map (TimerFired k) (t # ts)) q = run (map (TimerFired k) ts) ?q"
    by (simp add: run_def st)
  have "taskAt ?q k = MuyuTimer evs i st d (t + 100)" using k by simp
  from Cons.IH[OF this] Cons.prems(2,3) show ?case unfolding r by simp
qed

text \<open>
  Claim C4, amended. In the periodic phase, a pause, the polls of the timer while paused
  and the resume leave the periodic loop where it was: nothing is dispatched while
  paused, the loop keeps its cue index and the wait it is in, with its start and its
  length, and the anchor keeps its value. The anchor is not rebased on resume: the time
  spent paused is not taken out of the schedule.
\<close>

theorem pause_resume_retains_position:
  assumes "taskAt e k = MuyuTimer evs i st d due" and "isPlaying e" and "\<not> isPaused e"
  shows "cueTrace (trace (run (map (TimerFired k) ts) (pausePlayback e))) = cueTrace (trace e)
       \<and> taskAt (resumePlayback now (run (map (TimerFired k) ts) (pausePlayback e))) k =
           MuyuTimer evs i st d (if ts = [] then due else last ts + 100)
       \<and> muyuStartTime (resumePlayback now (run (map (TimerFired k) ts) (pausePlayback e))) =
           muyuStartTime e"
proof -
  let ?p = "pausePlayback e"
  let ?q = "run (map (TimerFired k) ts) ?p"
  have p: "?p = notifyPlayStateChange False (e\<lparr>isPaused := True\<rparr>)"
    using assms(2,3) by (simp add: pausePlayback_def)
  have pt: "tasks ?p = tasks e" "muyuStartTime ?p = muyuStartTime e" "isPlaying ?p" "isPaused ?p"
    "cueTrace (trace ?p) = cueTrace (trace e)"
    unfolding p using assms(2)
    by (simp_all add: notifyPlayStateChange_def emit_def cueTrace_def)
  have "taskAt ?p k = MuyuTimer evs i st d due" using assms(1) taskAt_same[OF pt(1)] by simp
  from paused_polls[OF this pt(3,4), of ts]
  have q: "taskAt ?q k = MuyuTimer evs i st d (if ts = [] then due else last ts + 100)"
    "trace ?q = trace ?p" "muyuStartTime ?q = muyuStartTime ?p" by simp_all
  have kq: "k < length (tasks ?q)" using q(1) by (intro taskAt_less) simp
  from keeps_resumePlayback[of ?q now]
  have "taskAt (resumePlayback now ?q) k = taskAt ?q k"
    "muyuStartTime (resumePlayback now ?q) = muyuStartTime ?q"
    using kq by (simp_all add: keeps_taskAt) (simp add: keeps_def)
  with q pt show ?thesis by simp
qed

theorem pause_resume_retains_position_witness:
  "cueTrace (trace (run [TimerFired 0 5100] (pausePlayback periodicRun))) =
     cueTrace (trace periodicRun)
   \<and> taskAt (resumePlayback 5400 (run [TimerFired 0 5100] (pausePlayback periodicRun))) 0 =
       MuyuTimer [muyuEvent 0 1000 0, muyuEvent 1 1000 2] 1 5000 1000 5200
   \<and> muyuStartTime (resumePlayback 5400 (run [TimerFired 0 5100] (pausePlayback periodicRun))) =
       Some 5000"
proof -
  have h: "taskAt periodicRun 0 = MuyuTimer [muyuEvent 0 1000 0, muyuEvent 1 1000 2] 1 5000 1000 5100"
    "isPlaying periodicRun" "\<not> isPaused periodicRun"
    by (simp_all add: periodicRun_state taskAt_def)
  have a: "muyuStartTime periodicRun = Some 5000" by (simp add: periodicRun_state)
  from pause_resume_retains_position[OF h, of "[5100]" 5400] a show ?thesis by simp
qed

text \<open>
  Claim C4, as stated, fails on the sample run, paused for at least 300 ms: after the
  resume the anchor is the one from before the pause, the sound dispatched by the resume is
  the start cue, and the periodic cues 0 and 1 are then fired from a second walk of the
  sequence, cue 0 for the second time.
\<close>

theorem pause_resume_counterexample:
  "muyuStartTime pausedRun = Some 5000
   \<and> muyuStartTime periodicRun = Some 5000
   \<and> trace pausedRun =
       trace periodicRun @ [PlayStateChange False True, PlayStateChange True False, AudioPlay Bowl]
   \<and> trace resumedRun =
       trace pausedRun @
       [SequenceProgress 0 bowlEvent 3,
        AudioPlay Muyu, HighlightCall 0, SequenceProgress 1 (muyuEvent 0 1000 0) 3,
        AudioPlay Muyu, HighlightCall 2, SequenceProgress 2 (muyuEvent 1 1000 2) 3,
        PlayStateChange False False, SequenceComplete]"
proof -
  have p: "pausedRun = periodicRun\<lparr>
       tasks := [MuyuTimer [muyuEvent 0 1000 0, muyuEvent 1 1000 2] 1 5000 1000 5200,
                 AwaitEvent bowlEvent],
       trace := trace periodicRun @
                [PlayStateChange False True, PlayStateChange True False, AudioPlay Bowl]\<rparr>"
    by (simp add: pausedRun_def periodicRun_state run_def engine_defs Let_def
        executeSequence.simps)
  have r: "trace resumedRun =
       trace pausedRun @
       [SequenceProgress 0 bowlEvent 3,
        AudioPlay Muyu, HighlightCall 0, SequenceProgress 1 (muyuEvent 0 1000 0) 3,
        AudioPlay Muyu, HighlightCall 2, SequenceProgress 2 (muyuEvent 1 1000 2) 3,
        PlayStateChange False False, SequenceComplete]"
    by (simp add: resumedRun_def p periodicRun_state run_def engine_defs Let_def
        muyuLoop.simps executeSequence.simps upt_small)
  show ?thesis using r by (simp add: p periodicRun_state)
qed

end
